theory Spec2Isabelle
  imports Main
begin

section \<open>Strings and numbers of the source language\<close>

text \<open>
  A string of the program is a sequence of UTF-16 code units; \<open>length\<close>, \<open>index\<close> and the
  regular expressions (which carry no \<open>u\<close> flag) all count code units. Numbers of the
  program are modelled as unbounded integers: every number the code builds is an integer,
  and the model is exact as long as its magnitude stays below \<open>2 ^ 53\<close>.
\<close>

type_synonym jsstring = "nat list"

definition ascii :: "string \<Rightarrow> jsstring" where
  "ascii cs = map of_char cs"

definition isDigit :: "nat \<Rightarrow> bool" where
  "isDigit c = (48 \<le> c \<and> c \<le> 57)"

definition digitValue :: "nat \<Rightarrow> int" where
  "digitValue c = int (c - 48)"

definition decimalValue :: "jsstring \<Rightarrow> int" where
  "decimalValue s = foldl (\<lambda>a c. a * 10 + digitValue c) 0 s"

text \<open>
  \<open>Number(s)\<close> on a string of decimal digits (the empty string gives 0). On any other
  string the result is \<open>None\<close>: it stands for \<open>NaN\<close> and for the numeric forms (signs,
  exponents, surrounding white space, hexadecimal) that are not modelled; the program only
  converts the two-digit fields of a matched clock time.
\<close>

definition jsNumber :: "jsstring \<Rightarrow> int option" where
  "jsNumber s = (if list_all isDigit s then Some (decimalValue s) else None)"

text \<open>\<open>s.split(sep)\<close> for a separator of one code unit.\<close>

fun split :: "nat \<Rightarrow> jsstring \<Rightarrow> jsstring list" where
  "split sep [] = [[]]"
| "split sep (c # cs) =
     (if c = sep then [] # split sep cs
      else (case split sep cs of [] \<Rightarrow> [[c]] | p # ps \<Rightarrow> (c # p) # ps))"

text \<open>The decimal rendering of a number that string concatenation performs.\<close>

function digitsOf :: "nat \<Rightarrow> jsstring" where
  "digitsOf n = (if n < 10 then [48 + n] else digitsOf (n div 10) @ [48 + n mod 10])"
  by pat_completeness auto
termination
  by (relation "measure id") auto

declare digitsOf.simps [simp del]

definition numberToString :: "int \<Rightarrow> jsstring" where
  "numberToString i = (if i < 0 then 45 # digitsOf (nat (- i)) else digitsOf (nat i))"

text \<open>The remainder operator \<open>%\<close> truncates: its result has the sign of the dividend.\<close>

definition jsRem :: "int \<Rightarrow> int \<Rightarrow> int" where
  "jsRem a b = sgn a * (\<bar>a\<bar> mod \<bar>b\<bar>)"

section \<open>Duration arithmetic\<close>

record TimeDuration =
  hours :: int
  minutes :: int

definition parseToMinutes :: "jsstring \<Rightarrow> int option" where
  "parseToMinutes timeStr =
     (case map jsNumber (split 58 timeStr) of
        Some h # Some m # _ \<Rightarrow> Some (h * 60 + m)
      | _ \<Rightarrow> None)"

definition sumDurations :: "TimeDuration \<Rightarrow> TimeDuration \<Rightarrow> TimeDuration" where
  "sumDurations dur1 dur2 =
     (let mins = (hours dur1 + hours dur2) * 60 + minutes dur1 + minutes dur2
      in \<lparr>hours = mins div 60, minutes = jsRem mins 60\<rparr>)"

definition diffDuration :: "jsstring \<Rightarrow> jsstring \<Rightarrow> TimeDuration option" where
  "diffDuration timeStr1 timeStr2 =
     (case (parseToMinutes timeStr1, parseToMinutes timeStr2) of
        (Some minutes1, Some minutes2) \<Rightarrow>
          (let difference = \<bar>minutes2 - minutes1\<bar>
           in Some \<lparr>hours = difference div 60, minutes = jsRem difference 60\<rparr>)
      | _ \<Rightarrow> None)"

definition formatDuration :: "TimeDuration \<Rightarrow> jsstring" where
  "formatDuration duration =
     (let mins = numberToString (minutes duration) @ ascii '' mins''
      in if hours duration > 0
         then numberToString (hours duration) @ ascii '' h '' @ mins
         else mins)"

text \<open>A clock time \<open>HH:MM\<close>: two digits, a colon, two digits.\<close>

definition isClockTime :: "jsstring \<Rightarrow> bool" where
  "isClockTime t =
     (length t = 5 \<and> isDigit (t ! 0) \<and> isDigit (t ! 1) \<and> t ! 2 = 58
      \<and> isDigit (t ! 3) \<and> isDigit (t ! 4))"

definition clockMinutes :: "jsstring \<Rightarrow> int" where
  "clockMinutes t =
     (10 * digitValue (t ! 0) + digitValue (t ! 1)) * 60
     + 10 * digitValue (t ! 3) + digitValue (t ! 4)"

section \<open>Regular expressions\<close>

text \<open>
  The program's three patterns are built from single-unit classes, greedy and lazy stars
  over a class, capture groups, one optional group and the two anchors. None carries a
  flag: \<open>.\<close> excludes the four line terminators, \<open>\d\<close> is an ASCII digit, \<open>\s\<close> is
  white space together with the line terminators, and the anchors stand for the two ends
  of the input.
\<close>

definition isLineTerminator :: "nat \<Rightarrow> bool" where
  "isLineTerminator c = (c = 10 \<or> c = 13 \<or> c = 8232 \<or> c = 8233)"

definition isWhiteSpace :: "nat \<Rightarrow> bool" where
  "isWhiteSpace c =
     (c = 9 \<or> c = 10 \<or> c = 11 \<or> c = 12 \<or> c = 13 \<or> c = 32 \<or> c = 160 \<or> c = 5760
      \<or> (8192 \<le> c \<and> c \<le> 8202) \<or> c = 8232 \<or> c = 8233 \<or> c = 8239 \<or> c = 8287
      \<or> c = 12288 \<or> c = 65279)"

datatype cls = Digit | Dot | Space | OneOf "nat list"

fun inCls :: "cls \<Rightarrow> nat \<Rightarrow> bool" where
  "inCls Digit c = isDigit c"
| "inCls Dot c = (\<not> isLineTerminator c)"
| "inCls Space c = isWhiteSpace c"
| "inCls (OneOf xs) c = (c \<in> set xs)"

datatype rx = Bol | Eol | Chr cls | Star cls | LazyStar cls | Group nat "rx list" | Opt rx

text \<open>
  A matcher state is the position reached, the input that remains and the captures so far.
  A pattern maps a state to the list of states it can end in, in the order in which a
  backtracking matcher tries them; the first one that lets the rest of the pattern succeed
  is the match. A greedy star offers the longest run first, a lazy star the shortest. The
  optional group is tried before it is skipped; the group of the program's pattern cannot
  match the empty string and is unset when it is tried.
\<close>

type_synonym captures = "nat \<Rightarrow> jsstring option"
type_synonym mstate = "nat \<times> jsstring \<times> captures"

fun greedyStar :: "cls \<Rightarrow> nat \<Rightarrow> jsstring \<Rightarrow> (nat \<times> jsstring) list" where
  "greedyStar k i [] = [(i, [])]"
| "greedyStar k i (c # cs) = (if inCls k c then greedyStar k (Suc i) cs else []) @ [(i, c # cs)]"

fun lazyStar :: "cls \<Rightarrow> nat \<Rightarrow> jsstring \<Rightarrow> (nat \<times> jsstring) list" where
  "lazyStar k i [] = [(i, [])]"
| "lazyStar k i (c # cs) = (i, c # cs) # (if inCls k c then lazyStar k (Suc i) cs else [])"

fun matchRx :: "rx \<Rightarrow> mstate \<Rightarrow> mstate list"
  and matchSeq :: "rx list \<Rightarrow> mstate \<Rightarrow> mstate list" where
  "matchRx Bol (i, r, g) = (if i = 0 then [(i, r, g)] else [])"
| "matchRx Eol (i, r, g) = (if r = [] then [(i, r, g)] else [])"
| "matchRx (Chr k) (i, r, g) =
     (case r of [] \<Rightarrow> [] | c # cs \<Rightarrow> if inCls k c then [(Suc i, cs, g)] else [])"
| "matchRx (Star k) (i, r, g) = map (\<lambda>(j, r'). (j, r', g)) (greedyStar k i r)"
| "matchRx (LazyStar k) (i, r, g) = map (\<lambda>(j, r'). (j, r', g)) (lazyStar k i r)"
| "matchRx (Group n rs) (i, r, g) =
     map (\<lambda>(j, r', g'). (j, r', g'(n \<mapsto> take (j - i) r))) (matchSeq rs (i, r, g))"
| "matchRx (Opt x) (i, r, g) = matchRx x (i, r, g) @ [(i, r, g)]"
| "matchSeq [] st = [st]"
| "matchSeq (x # xs) st = concat (map (matchSeq xs) (matchRx x st))"

fun groupCount :: "rx \<Rightarrow> nat" where
  "groupCount (Group n rs) = Suc (sum_list (map groupCount rs))"
| "groupCount (Opt x) = groupCount x"
| "groupCount _ = 0"

text \<open>
  The result array of \<open>exec\<close> and \<open>match\<close>: the index of the match and the elements
  \<open>[whole match, group 1, ..., group n]\<close>, an unset group being \<open>None\<close>. The array has one
  element per group of the pattern whether or not the group took part in the match.
\<close>

record RegExpMatch =
  index :: nat
  elems :: "jsstring option list"

fun execFrom :: "rx list \<Rightarrow> nat \<Rightarrow> jsstring \<Rightarrow> RegExpMatch option" where
  "execFrom p i r =
     (case matchSeq p (i, r, Map.empty) of
        (j, r', g) # _ \<Rightarrow>
          Some \<lparr>index = i,
                elems = Some (take (j - i) r) # map g [1 ..< Suc (sum_list (map groupCount p))]\<rparr>
      | [] \<Rightarrow> (case r of [] \<Rightarrow> None | c # cs \<Rightarrow> execFrom p (Suc i) cs))"

declare execFrom.simps [simp del]

definition regexExec :: "rx list \<Rightarrow> jsstring \<Rightarrow> RegExpMatch option" where
  "regexExec p s = execFrom p 0 s"

definition lit :: "string \<Rightarrow> rx list" where
  "lit cs = map (\<lambda>c. Chr (OneOf [c])) (ascii cs)"

text \<open>\<open>\d\d:\d\d\<close>\<close>

definition clockTimeRx :: "rx list" where
  "clockTimeRx = [Chr Digit, Chr Digit] @ lit '':'' @ [Chr Digit, Chr Digit]"

text \<open>\<open>^.*?(\d\d:\d\d).*?(\d\d:\d\d).*\<close>\<close>

definition timeRangeRx :: "rx list" where
  "timeRangeRx =
     [Bol, LazyStar Dot, Group 1 clockTimeRx, LazyStar Dot, Group 2 clockTimeRx, Star Dot]"

text \<open>
  \<open>(\d\d:\d\d)(\s*[-\<dots>]\s*\d\d:\d\d)?.*$\<close>, the pattern local to \<open>buildDecorations\<close>
  (there it shadows the name \<open>timeRangeRx\<close>); the class holds the hyphen, the en dash
  U+2013 and the em dash U+2014.
\<close>

definition dashClass :: cls where
  "dashClass = OneOf [45, 8211, 8212]"

definition timeRangeRx' :: "rx list" where
  "timeRangeRx' =
     [Group 1 clockTimeRx,
      Opt (Group 2 ([Star Space, Chr dashClass, Star Space] @ clockTimeRx)),
      Star Dot, Eol]"

text \<open>\<open>^list-(\d)\<close>\<close>

definition listNodeNameRx :: "rx list" where
  "listNodeNameRx = [Bol] @ lit ''list-'' @ [Group 1 [Chr Digit]]"

section \<open>Line parser\<close>

text \<open>
  \<open>TypeError\<close> is the exception of reading a property of \<open>undefined\<close>. \<open>NotModelled\<close>
  marks the places where a \<open>NaN\<close> or an unset group would enter a computation; the model
  stops there, and the lemmas below show that no input reaches them.
\<close>

datatype error = TypeError | NotModelled

definition bulletNodeDuration :: "jsstring \<Rightarrow> error + TimeDuration option" where
  "bulletNodeDuration bulletValue =
     (case regexExec timeRangeRx bulletValue of
        Some match \<Rightarrow>
          (case (elems match ! 1, elems match ! 2) of
             (Some t1, Some t2) \<Rightarrow>
               (case diffDuration t1 t2 of
                  Some d \<Rightarrow> Inr (Some d)
                | None \<Rightarrow> Inl NotModelled)
           | _ \<Rightarrow> Inl TypeError)
      | None \<Rightarrow> Inr None)"

record MarkPos =
  from_pos :: int
  to_pos :: int

definition optLength :: "jsstring option \<Rightarrow> int" where
  "optLength x = (case x of None \<Rightarrow> 0 | Some t \<Rightarrow> int (length t))"

text \<open>
  The mark range of a list node that starts at offset \<open>nodeFrom\<close> and has the text
  \<open>bulletValue\<close>.
\<close>

definition markPosOf :: "int \<Rightarrow> jsstring \<Rightarrow> MarkPos option" where
  "markPosOf nodeFrom bulletValue =
     (case regexExec timeRangeRx' bulletValue of
        Some timeRangeMatch \<Rightarrow>
          (if length (elems timeRangeMatch) = 3
           then Some \<lparr>from_pos = nodeFrom + int (index timeRangeMatch),
                      to_pos = nodeFrom + int (index timeRangeMatch)
                        + optLength (elems timeRangeMatch ! 1)
                        + optLength (elems timeRangeMatch ! 2)\<rparr>
           else None)
      | None \<Rightarrow> None)"

text \<open>
  \<open>parseInt\<close> on a string that starts with decimal digits; \<open>None\<close> is \<open>NaN\<close>. Leading
  white space, signs and the \<open>0x\<close> prefix are not modelled: the argument is the digit
  captured by \<open>listNodeNameRx\<close>.
\<close>

definition parseInt :: "jsstring \<Rightarrow> int option" where
  "parseInt s =
     (let ds = takeWhile isDigit s in if ds = [] then None else Some (decimalValue ds))"

text \<open>
  The level of a syntax node by its type name: \<open>None\<close> when the name is not that of a list
  item, so that the node is passed over.
\<close>

definition listNodeLevel :: "jsstring \<Rightarrow> (error + int) option" where
  "listNodeLevel name =
     (case regexExec listNodeNameRx name of
        None \<Rightarrow> None
      | Some listNodeMatch \<Rightarrow>
          Some (case elems listNodeMatch ! 1 of
                  None \<Rightarrow> Inl NotModelled
                | Some digit \<Rightarrow>
                    (case parseInt digit of
                       None \<Rightarrow> Inl NotModelled
                     | Some currentTaskLevel \<Rightarrow> Inr currentTaskLevel)))"

section \<open>Tasks\<close>

text \<open>
  The task objects of one build live in a store, in the order in which they are created;
  a reference is \<open>RootTask\<close> (the synthetic root, of level 0) or the index of a task
  object. A task object holds references to its parent and to its children.
\<close>

datatype TaskRef = RootTask | Task nat

record TaskCell =
  cell_level :: int
  cell_position :: int
  cell_markPos :: "MarkPos option"
  cell_parent :: "TaskRef option"
  cell_duration :: "TimeDuration option"
  cell_children :: "nat list"

text \<open>
  A task as the aggregation and the display see it: the interface \<open>TimedTask\<close>, whose
  children are the tasks themselves; \<open>parent\<close> stays a reference.
\<close>

datatype TimedTask =
  TimedTask (level: int) (position: int) (markPos: "MarkPos option")
    (parent: "TaskRef option") (duration: "TimeDuration option") (children: "TimedTask list")

section \<open>Tree builder\<close>

text \<open>
  What \<open>enter\<close> reads of a syntax node: its type name, its offsets and the text of the
  document between them.
\<close>

record SyntaxNode =
  node_name :: jsstring
  node_from :: int
  node_to :: int
  bulletValue :: jsstring

record BuildState =
  rootChildren :: "nat list"
  tasks :: "TaskCell list"
  currentParent :: "TaskRef option"

definition rootTask :: BuildState where
  "rootTask = \<lparr>rootChildren = [], tasks = [], currentParent = Some RootTask\<rparr>"

fun levelOf :: "TaskCell list \<Rightarrow> TaskRef \<Rightarrow> int" where
  "levelOf ts RootTask = 0"
| "levelOf ts (Task i) = cell_level (ts ! i)"

text \<open>The root object has no \<open>parent\<close> property: reading it gives \<open>undefined\<close>.\<close>

fun parentOf :: "TaskCell list \<Rightarrow> TaskRef \<Rightarrow> TaskRef option" where
  "parentOf ts RootTask = None"
| "parentOf ts (Task i) = cell_parent (ts ! i)"

text \<open>
  The \<open>while\<close> loop that pops the parent cursor. The outer \<open>None\<close> is a loop that does
  not end; the inner one is a cursor that has become \<open>undefined\<close>.
\<close>

partial_function (option) popParent ::
  "TaskCell list \<Rightarrow> int \<Rightarrow> TaskRef option \<Rightarrow> TaskRef option option" where
  "popParent ts currentTaskLevel cur =
     (case cur of
        None \<Rightarrow> Some None
      | Some p \<Rightarrow>
          if levelOf ts p \<ge> currentTaskLevel
          then popParent ts currentTaskLevel (parentOf ts p)
          else Some (Some p))"

declare popParent.simps [code]

text \<open>\<open>currentParent.children.push(currentTask)\<close>, the new task being object \<open>n\<close>.\<close>

fun pushChild :: "TaskRef \<Rightarrow> nat \<Rightarrow> BuildState \<Rightarrow> BuildState" where
  "pushChild RootTask n st = st\<lparr>rootChildren := rootChildren st @ [n]\<rparr>"
| "pushChild (Task i) n st =
     st\<lparr>tasks := (tasks st)[i := (tasks st ! i)\<lparr>cell_children := cell_children (tasks st ! i) @ [n]\<rparr>]\<rparr>"

text \<open>
  The last three statements of \<open>enter\<close>: the new task object is created (it becomes object
  \<open>length (tasks st)\<close>), pushed onto the children of its parent, and made the cursor.
\<close>

definition attachTask :: "TaskRef \<Rightarrow> TaskCell \<Rightarrow> BuildState \<Rightarrow> BuildState" where
  "attachTask p currentTask st =
     (pushChild p (length (tasks st)) (st\<lparr>tasks := tasks st @ [currentTask]\<rparr>))
       \<lparr>currentParent := Some (Task (length (tasks st)))\<rparr>"

definition enter :: "SyntaxNode \<Rightarrow> BuildState \<Rightarrow> (error + BuildState) option" where
  "enter node st =
     (case listNodeLevel (node_name node) of
        None \<Rightarrow> Some (Inr st)
      | Some (Inl e) \<Rightarrow> Some (Inl e)
      | Some (Inr currentTaskLevel) \<Rightarrow>
          (case bulletNodeDuration (bulletValue node) of
             Inl e \<Rightarrow> Some (Inl e)
           | Inr dur \<Rightarrow>
               (case popParent (tasks st) currentTaskLevel (currentParent st) of
                  None \<Rightarrow> None
                | Some None \<Rightarrow> Some (Inl TypeError)
                | Some (Some p) \<Rightarrow>
                    Some (Inr (attachTask p
                      \<lparr>cell_level = currentTaskLevel,
                       cell_position = node_to node,
                       cell_markPos = markPosOf (node_from node) (bulletValue node),
                       cell_parent = Some p,
                       cell_duration = dur,
                       cell_children = []\<rparr> st)))))"

text \<open>
  The syntax nodes of all visible ranges, in the order in which the iteration enters them.
\<close>

fun iterate :: "SyntaxNode list \<Rightarrow> BuildState \<Rightarrow> (error + BuildState) option" where
  "iterate [] st = Some (Inr st)"
| "iterate (node # nodes) st =
     (case enter node st of
        None \<Rightarrow> None
      | Some (Inl e) \<Rightarrow> Some (Inl e)
      | Some (Inr st') \<Rightarrow> iterate nodes st')"

text \<open>
  The tasks below a reference, read from the store. Task objects are created in stream
  order and a child is pushed when it is created, so a child always has a larger index
  than its parent; the guard makes the function total on every store.
\<close>

function treeOf :: "TaskCell list \<Rightarrow> nat \<Rightarrow> TimedTask" where
  "treeOf ts i =
     TimedTask (cell_level (ts ! i)) (cell_position (ts ! i)) (cell_markPos (ts ! i))
       (cell_parent (ts ! i)) (cell_duration (ts ! i))
       (map (treeOf ts) (filter (\<lambda>c. i < c \<and> c < length ts) (cell_children (ts ! i))))"
  by pat_completeness auto
termination
  by (relation "measure (\<lambda>(ts, i). length ts - i)") auto

declare treeOf.simps [simp del]

text \<open>\<open>rootTask.children\<close> as a forest.\<close>

definition forestOf :: "BuildState \<Rightarrow> TimedTask list" where
  "forestOf st = map (treeOf (tasks st)) (rootChildren st)"

section \<open>Duration aggregator\<close>

text \<open>
  The function updates the tasks in place; the model returns the updated list next to the
  sum. \<open>forTasks\<close> is the \<open>for\<close> loop, its first argument the running sum.
\<close>

fun setTasksDuration :: "TimedTask list \<Rightarrow> TimeDuration \<times> TimedTask list"
  and forTasks :: "TimeDuration \<Rightarrow> TimedTask list \<Rightarrow> TimeDuration \<times> TimedTask list" where
  "setTasksDuration taskList = forTasks \<lparr>hours = 0, minutes = 0\<rparr> taskList"
| "forTasks acc [] = (acc, [])"
| "forTasks acc (TimedTask lv po mp pa du ch # rest) =
     (case du of
        None \<Rightarrow>
          (let (d, ch') = setTasksDuration ch;
               (acc', rest') = forTasks (sumDurations acc d) rest
           in (acc', TimedTask lv po mp pa (Some d) ch' # rest'))
      | Some d \<Rightarrow>
          (let (acc', rest') = forTasks (sumDurations acc d) rest
           in (acc', TimedTask lv po mp pa (Some d) ch # rest')))"

section \<open>Annotation emitter\<close>

datatype TimeLengthWidget = TimeLengthWidget (timeText: jsstring)

text \<open>The inner text of the element that \<open>toDOM\<close> builds: space, em dash, space, stopwatch
  (U+23F1 U+FE0F), space, and the time text.\<close>

definition toDOM :: "TimeLengthWidget \<Rightarrow> jsstring" where
  "toDOM w = [32, 8212, 32, 9201, 65039, 32] @ timeText w"

datatype Decoration =
  MarkDecoration jsstring
| WidgetDecoration TimeLengthWidget int

definition markStyle :: jsstring where
  "markStyle = ascii
     ''color:#44dddd;font-family:Courier;font-size:11pt;font-weight:600;letter-spacing:-1px;''"

text \<open>
  The builder is the sequence of the ranges added to it; the order check that the library
  makes on \<open>add\<close> is not part of the model.
\<close>

record Range =
  range_from :: int
  range_to :: int
  range_value :: Decoration

fun displayDurations :: "Range list \<Rightarrow> TimedTask list \<Rightarrow> Range list" where
  "displayDurations builder [] = builder"
| "displayDurations builder (TimedTask lv po mp pa du ch # rest) =
     (let builder1 =
            (case mp of
               Some m \<Rightarrow> builder @ [\<lparr>range_from = from_pos m, range_to = to_pos m,
                                       range_value = MarkDecoration markStyle\<rparr>]
             | None \<Rightarrow> builder);
          builder2 =
            (case du of
               Some dur \<Rightarrow>
                 if hours dur \<noteq> 0 \<or> minutes dur \<noteq> 0
                 then builder1 @ [\<lparr>range_from = po, range_to = po,
                        range_value = WidgetDecoration (TimeLengthWidget (formatDuration dur)) 1\<rparr>]
                 else builder1
             | None \<Rightarrow> builder1);
          builder3 = displayDurations builder2 ch
      in displayDurations builder3 rest)"

text \<open>\<open>buildDecorations\<close>: build the tree, aggregate, display.\<close>

definition buildDecorations :: "SyntaxNode list \<Rightarrow> (error + Range list) option" where
  "buildDecorations nodes =
     (case iterate nodes rootTask of
        None \<Rightarrow> None
      | Some (Inl e) \<Rightarrow> Some (Inl e)
      | Some (Inr st) \<Rightarrow>
          Some (Inr (displayDurations [] (snd (setTasksDuration (forestOf st))))))"

section \<open>Lines and their clock-time tokens\<close>

text \<open>A line holds no line terminator.\<close>

definition isLine :: "jsstring \<Rightarrow> bool" where
  "isLine s = list_all (\<lambda>c. \<not> isLineTerminator c) s"

text \<open>
  The \<open>HH:MM\<close> tokens of a text, read from left to right: a token is the first place, at or
  after the end of the previous token, where two digits, a colon and two digits stand.
\<close>

fun scanTokens :: "jsstring \<Rightarrow> jsstring list" where
  "scanTokens [] = []"
| "scanTokens (c # cs) =
     (if isClockTime (take 5 (c # cs)) then take 5 (c # cs) # scanTokens (drop 4 cs)
      else scanTokens cs)"



definition validDuration :: "TimeDuration \<Rightarrow> bool" where
  "validDuration d = (0 \<le> hours d \<and> 0 \<le> minutes d \<and> minutes d \<le> 59)"

definition isListItemName :: "jsstring \<Rightarrow> bool" where
  "isListItemName name = (6 \<le> length name \<and> take 5 name = ascii ''list-'' \<and> isDigit (name ! 5))"

fun refEnd :: "TaskRef \<Rightarrow> nat" where
  "refEnd RootTask = 0"
| "refEnd (Task j) = Suc j"

fun childrenOf :: "BuildState \<Rightarrow> TaskRef \<Rightarrow> nat list" where
  "childrenOf st RootTask = rootChildren st"
| "childrenOf st (Task i) = cell_children (tasks st ! i)"

definition nearestParent :: "BuildState \<Rightarrow> nat \<Rightarrow> bool" where
  "nearestParent st k =
     (case cell_parent (tasks st ! k) of
        None \<Rightarrow> False
      | Some p \<Rightarrow>
          refEnd p \<le> k
          \<and> levelOf (tasks st) p < cell_level (tasks st ! k)
          \<and> (\<forall>j \<in> {refEnd p ..< k}. cell_level (tasks st ! k) \<le> cell_level (tasks st ! j))
          \<and> k \<in> set (childrenOf st p))"

definition streamLevels :: "SyntaxNode list \<Rightarrow> int list" where
  "streamLevels nodes =
     concat (map (\<lambda>node. case listNodeLevel (node_name node) of
                                Some (Inr l) \<Rightarrow> [l] | _ \<Rightarrow> []) nodes)"

definition lastRef :: "nat \<Rightarrow> TaskRef" where
  "lastRef n = (if n = 0 then RootTask else Task (n - 1))"

text \<open>
  What holds of the build state between two nodes: every task has its nearest preceding
  parent and a level of at least 1, the cursor is the task created last (the root before
  the first), children are created after their parent, and parsed durations are
  normalized.
\<close>

definition builderInv :: "BuildState \<Rightarrow> bool" where
  "builderInv st =
     ((\<forall>k < length (tasks st). nearestParent st k \<and> 1 \<le> cell_level (tasks st ! k))
      \<and> currentParent st = Some (lastRef (length (tasks st)))
      \<and> (\<forall>c \<in> set (rootChildren st). c < length (tasks st))
      \<and> (\<forall>k < length (tasks st). \<forall>c \<in> set (cell_children (tasks st ! k)).
            k < c \<and> c < length (tasks st))
      \<and> (\<forall>t \<in> set (tasks st). \<forall>d. cell_duration t = Some d \<longrightarrow> validDuration d))"

text \<open>A stream with a jump of two levels, a node that is no list item, and two dedents.\<close>

definition exampleStream :: "SyntaxNode list" where
  "exampleStream = [\<lparr>node_name = ascii ''list-1'', node_from = 0, node_to = 1, bulletValue = ascii ''a''\<rparr>,
          \<lparr>node_name = ascii ''list-3'', node_from = 2, node_to = 3, bulletValue = ascii ''b''\<rparr>,
          \<lparr>node_name = ascii ''em'', node_from = 2, node_to = 3, bulletValue = ascii ''b''\<rparr>,
          \<lparr>node_name = ascii ''list-2'', node_from = 4, node_to = 5, bulletValue = ascii ''c''\<rparr>,
          \<lparr>node_name = ascii ''list-1'', node_from = 6, node_to = 7, bulletValue = ascii ''d''\<rparr>]"

text \<open>The tasks of a forest in document order: a task before its children.\<close>

fun preorderTask :: "TimedTask \<Rightarrow> TimedTask list" where
  "preorderTask (TimedTask lv po mp pa du ch) =
     TimedTask lv po mp pa du ch # concat (map preorderTask ch)"

definition preorder :: "TimedTask list \<Rightarrow> TimedTask list" where
  "preorder ts = concat (map preorderTask ts)"

text \<open>A forest without its durations: what is left is the levels, the positions, the
  mark ranges, the parent references and the shape.\<close>

fun eraseDurations :: "TimedTask \<Rightarrow> TimedTask" where
  "eraseDurations (TimedTask lv po mp pa du ch) =
     TimedTask lv po mp pa None (map eraseDurations ch)"

definition totalMinutes :: "TimeDuration \<Rightarrow> int" where
  "totalMinutes d = hours d * 60 + minutes d"

definition normalized :: "int \<Rightarrow> TimeDuration" where
  "normalized m = \<lparr>hours = m div 60, minutes = m mod 60\<rparr>"

text \<open>
  The duration a task resolves to: its parsed range when it has one, and otherwise the
  normalized sum of the minutes its children resolve to.
\<close>

fun resolved :: "TimedTask \<Rightarrow> TimeDuration" where
  "resolved (TimedTask lv po mp pa du ch) =
     (case du of
        Some d \<Rightarrow> d
      | None \<Rightarrow> normalized (sum_list (map (\<lambda>c. totalMinutes (resolved c)) ch)))"

text \<open>
  The aggregated task: a task with a parsed range is left as it is, with everything below
  it; a task without one gets its resolved duration, and its children are aggregated.
\<close>

fun aggregated :: "TimedTask \<Rightarrow> TimedTask" where
  "aggregated (TimedTask lv po mp pa du ch) =
     (case du of
        Some d \<Rightarrow> TimedTask lv po mp pa (Some d) ch
      | None \<Rightarrow> TimedTask lv po mp pa (Some (resolved (TimedTask lv po mp pa None ch)))
                  (map aggregated ch))"

fun validTree :: "TimedTask \<Rightarrow> bool" where
  "validTree (TimedTask lv po mp pa du ch) =
     ((case du of Some d \<Rightarrow> validDuration d | None \<Rightarrow> True) \<and> list_all validTree ch)"

definition fillTask :: "TimedTask \<Rightarrow> TimedTask" where
  "fillTask t =
     (case duration t of
        Some d \<Rightarrow> t
      | None \<Rightarrow> TimedTask (level t) (position t) (markPos t) (parent t)
                  (Some (fst (setTasksDuration (children t)))) (snd (setTasksDuration (children t))))"

definition keepsDefined :: "TimedTask \<Rightarrow> TimedTask \<Rightarrow> bool" where
  "keepsDefined t t' = (duration t = None \<or> duration t' = duration t)"

text \<open>The scenario of the specification: A with a range, below it B with a range and C
  without one.\<close>

definition scenario :: "SyntaxNode list" where
  "scenario =
     [\<lparr>node_name = ascii ''list-1'', node_from = 0, node_to = 13,
       bulletValue = ascii ''09:00-10:00 A''\<rparr>,
      \<lparr>node_name = ascii ''list-2'', node_from = 14, node_to = 27,
       bulletValue = ascii ''09:00-09:30 B''\<rparr>,
      \<lparr>node_name = ascii ''list-2'', node_from = 28, node_to = 41,
       bulletValue = ascii ''child no time''\<rparr>]"

text \<open>
  An outline whose top line has a range: below it a line without a range, and below that
  two lines with ranges.
\<close>

definition workRanged :: "SyntaxNode list" where
  "workRanged =
     [\<lparr>node_name = ascii ''list-1'', node_from = 0, node_to = 16,
       bulletValue = ascii ''09:00-12:00 Work''\<rparr>,
      \<lparr>node_name = ascii ''list-2'', node_from = 17, node_to = 26,
       bulletValue = ascii ''Project X''\<rparr>,
      \<lparr>node_name = ascii ''list-3'', node_from = 27, node_to = 40,
       bulletValue = ascii ''09:00-10:00 a''\<rparr>,
      \<lparr>node_name = ascii ''list-3'', node_from = 41, node_to = 54,
       bulletValue = ascii ''10:00-11:00 b''\<rparr>]"

text \<open>The same outline, its top line without a range.\<close>

definition workPlain :: "SyntaxNode list" where
  "workPlain =
     [\<lparr>node_name = ascii ''list-1'', node_from = 0, node_to = 4,
       bulletValue = ascii ''Work''\<rparr>,
      \<lparr>node_name = ascii ''list-2'', node_from = 5, node_to = 14,
       bulletValue = ascii ''Project X''\<rparr>,
      \<lparr>node_name = ascii ''list-3'', node_from = 15, node_to = 28,
       bulletValue = ascii ''09:00-10:00 a''\<rparr>,
      \<lparr>node_name = ascii ''list-3'', node_from = 29, node_to = 42,
       bulletValue = ascii ''10:00-11:00 b''\<rparr>]"

text \<open>What the display adds for one task by itself: the mark, then the label.\<close>

definition ownRanges :: "TimedTask \<Rightarrow> Range list" where
  "ownRanges t =
     (case markPos t of
        Some m \<Rightarrow> [\<lparr>range_from = from_pos m, range_to = to_pos m,
                      range_value = MarkDecoration markStyle\<rparr>]
      | None \<Rightarrow> [])
     @ (case duration t of
          Some dur \<Rightarrow>
            if hours dur = 0 \<and> minutes dur = 0 then []
            else [\<lparr>range_from = position t, range_to = position t,
                   range_value = WidgetDecoration (TimeLengthWidget (formatDuration dur)) 1\<rparr>]
        | None \<Rightarrow> [])"

text \<open>The inline labels among the ranges of a builder: where each is anchored and the text
  it shows.\<close>

fun widgetLabels :: "Range list \<Rightarrow> (int \<times> int \<times> jsstring) list" where
  "widgetLabels [] = []"
| "widgetLabels (r # rs) =
     (case range_value r of
        WidgetDecoration w side \<Rightarrow> (range_from r, range_to r, toDOM w) # widgetLabels rs
      | MarkDecoration style \<Rightarrow> widgetLabels rs)"

text \<open>The label the specification gives a task: none without a duration or with the
  duration \<open>{0, 0}\<close>, and otherwise the prefix and the formatted duration, at the position
  of the task.\<close>

definition taskLabel :: "TimedTask \<Rightarrow> (int \<times> int \<times> jsstring) list" where
  "taskLabel t =
     (case duration t of
        None \<Rightarrow> []
      | Some d \<Rightarrow>
          if hours d = 0 \<and> minutes d = 0 then []
          else [(position t, position t, [32, 8212, 32, 9201, 65039, 32] @ formatDuration d)])"

text \<open>The offsets of a task: its mark range, when it has one, and its position.\<close>

definition offsets :: "TimedTask \<Rightarrow> int list" where
  "offsets t =
     (case markPos t of Some m \<Rightarrow> [from_pos m, to_pos m] | None \<Rightarrow> []) @ [position t]"

text \<open>
  A forest in document order: task after task, a task before its children, the offsets
  never decrease. So the mark range of a task lies in front of its position, the end of
  its line, and the offsets of the tasks below it and after it are at or after its own.
\<close>

definition inDocumentOrder :: "TimedTask list \<Rightarrow> bool" where
  "inDocumentOrder ts = sorted (concat (map offsets (preorder ts)))"

section \<open>Properties of the duration arithmetic\<close>

lemma isClockTime_shape:
  "isClockTime t \<Longrightarrow> \<exists>a b c d. t = [a, b, 58, c, d] \<and> isDigit a \<and> isDigit b \<and> isDigit c \<and> isDigit d"
proof -
  assume h: "isClockTime t"
  then have len: "length t = 5" by (simp add: isClockTime_def)
  then obtain a b x c d where t: "t = [a, b, x, c, d]"
    by (cases t; simp; rename_tac t1; case_tac t1; simp; rename_tac t2; case_tac t2; simp;
        rename_tac t3; case_tac t3; simp; rename_tac t4; case_tac t4; simp)
  with h show ?thesis by (simp add: isClockTime_def)
qed

lemma isDigit_not_colon: "isDigit c \<Longrightarrow> c \<noteq> 58"
  by (auto simp: isDigit_def)

lemma parseToMinutes_clock:
  assumes "isClockTime t"
  shows "parseToMinutes t = Some (clockMinutes t)"
proof -
  from isClockTime_shape [OF assms] obtain a b c d where
    t: "t = [a, b, 58, c, d]" and dg: "isDigit a" "isDigit b" "isDigit c" "isDigit d"
    by blast
  from dg have ne: "a \<noteq> 58" "b \<noteq> 58" "c \<noteq> 58" "d \<noteq> 58"
    by (simp_all add: isDigit_not_colon)
  have sp: "split 58 t = [[a, b], [c, d]]"
    using ne by (simp add: t)
  have cm: "clockMinutes t = (10 * digitValue a + digitValue b) * 60 + 10 * digitValue c + digitValue d"
    by (simp add: clockMinutes_def t)
  have "parseToMinutes t = Some ((10 * digitValue a + digitValue b) * 60 + 10 * digitValue c + digitValue d)"
    unfolding parseToMinutes_def sp using dg
    by (simp add: jsNumber_def decimalValue_def)
  with cm show ?thesis by simp
qed

lemma clockMinutes_nonneg: "0 \<le> clockMinutes t"
  by (simp add: clockMinutes_def digitValue_def)

lemma jsRem_nonneg: "0 \<le> a \<Longrightarrow> jsRem a 60 = a mod 60"
  by (cases "a = 0") (simp_all add: jsRem_def)

lemma diffDuration_clock:
  assumes "isClockTime t1" "isClockTime t2"
  shows "diffDuration t1 t2 =
           Some \<lparr>hours = \<bar>clockMinutes t2 - clockMinutes t1\<bar> div 60,
                 minutes = \<bar>clockMinutes t2 - clockMinutes t1\<bar> mod 60\<rparr>"
  using assms by (simp add: diffDuration_def parseToMinutes_clock jsRem_nonneg Let_def)

text \<open>
  Claim C7. For clock times \<open>t1\<close> and \<open>t2\<close> of the form \<open>HH:MM\<close>, \<open>diffDuration t1 t2\<close> is the
  normalisation of \<open>|toMinutes t2 - toMinutes t1|\<close>: its hours and minutes add up to that
  magnitude and the minutes lie in \<open>0..59\<close>. Hence the difference is commutative, and an end
  that numerically precedes the start gives the plain magnitude \<open>toMinutes t1 - toMinutes t2\<close>
  (nothing wraps past midnight).
\<close>

theorem diffDuration_abs_normalized:
  assumes "isClockTime t1" and "isClockTime t2"
  shows "\<exists>m1 m2 d. parseToMinutes t1 = Some m1 \<and> parseToMinutes t2 = Some m2
           \<and> diffDuration t1 t2 = Some d
           \<and> hours d * 60 + minutes d = \<bar>m2 - m1\<bar>
           \<and> 0 \<le> hours d \<and> 0 \<le> minutes d \<and> minutes d \<le> 59
           \<and> diffDuration t2 t1 = diffDuration t1 t2
           \<and> (m2 < m1 \<longrightarrow> hours d * 60 + minutes d = m1 - m2)"
proof -
  let ?m1 = "clockMinutes t1" and ?m2 = "clockMinutes t2"
  let ?d = "\<lparr>hours = \<bar>?m2 - ?m1\<bar> div 60, minutes = \<bar>?m2 - ?m1\<bar> mod 60\<rparr>"
  have p1: "parseToMinutes t1 = Some ?m1" and p2: "parseToMinutes t2 = Some ?m2"
    using assms by (simp_all add: parseToMinutes_clock)
  have d12: "diffDuration t1 t2 = Some ?d"
    using assms by (rule diffDuration_clock)
  have d21: "diffDuration t2 t1 = Some ?d"
    using diffDuration_clock [OF assms(2) assms(1)] by (simp add: abs_minus_commute)
  have total: "hours ?d * 60 + minutes ?d = \<bar>?m2 - ?m1\<bar>"
    by simp
  have rng: "0 \<le> hours ?d \<and> 0 \<le> minutes ?d \<and> minutes ?d \<le> 59"
    by (simp add: pos_imp_zdiv_nonneg_iff)
  have rev: "?m2 < ?m1 \<longrightarrow> hours ?d * 60 + minutes ?d = ?m1 - ?m2"
    by simp
  from p1 p2 d12 d21 total rng rev show ?thesis
    by (intro exI [of _ ?m1] exI [of _ ?m2] exI [of _ ?d]) simp
qed

theorem diffDuration_abs_normalized_witness:
  "isClockTime (ascii ''10:15'') \<and> isClockTime (ascii ''09:00'')
   \<and> diffDuration (ascii ''10:15'') (ascii ''09:00'') = Some \<lparr>hours = 1, minutes = 15\<rparr>
   \<and> diffDuration (ascii ''09:00'') (ascii ''10:15'') = Some \<lparr>hours = 1, minutes = 15\<rparr>"
proof -
  have c1: "isClockTime (ascii ''10:15'')" and c2: "isClockTime (ascii ''09:00'')"
    by (simp_all add: isClockTime_def ascii_def isDigit_def)
  have p1: "parseToMinutes (ascii ''10:15'') = Some 615"
    and p2: "parseToMinutes (ascii ''09:00'') = Some 540"
    by (simp_all add: parseToMinutes_def ascii_def jsNumber_def isDigit_def decimalValue_def
        digitValue_def)
  from diffDuration_abs_normalized [OF c1 c2] obtain m1 m2 d where
    h: "parseToMinutes (ascii ''10:15'') = Some m1" "parseToMinutes (ascii ''09:00'') = Some m2"
       "diffDuration (ascii ''10:15'') (ascii ''09:00'') = Some d"
       "hours d * 60 + minutes d = \<bar>m2 - m1\<bar>" "0 \<le> minutes d" "minutes d \<le> 59"
       "diffDuration (ascii ''09:00'') (ascii ''10:15'')
          = diffDuration (ascii ''10:15'') (ascii ''09:00'')"
    by blast
  from h(1,2) p1 p2 have m: "m1 = 615" "m2 = 540" by simp_all
  from h(4,5,6) m have "hours d = 1 \<and> minutes d = 15" by simp presburger
  then have "d = \<lparr>hours = 1, minutes = 15\<rparr>" by (cases d) simp
  with h(3,7) c1 c2 show ?thesis by simp
qed

lemma digitsOf_small: "n < 10 \<Longrightarrow> digitsOf n = [48 + n]"
  by (simp add: digitsOf.simps)

text \<open>
  Claim C8. For a duration with non-negative hours and minutes, \<open>formatDuration\<close> returns
  \<open><minutes> mins\<close> when the hours are 0 and \<open><hours> h <minutes> mins\<close> otherwise, the
  numbers in decimal; \<open>{0, 5}\<close> gives \<open>5 mins\<close> and \<open>{2, 0}\<close> gives \<open>2 h 0 mins\<close>.
\<close>

theorem formatDuration_shape:
  assumes "0 \<le> hours d" and "0 \<le> minutes d"
  shows "formatDuration d =
           (if hours d = 0 then digitsOf (nat (minutes d)) @ ascii '' mins''
            else digitsOf (nat (hours d)) @ ascii '' h '' @ digitsOf (nat (minutes d))
                 @ ascii '' mins'')
         \<and> formatDuration \<lparr>hours = 0, minutes = 5\<rparr> = ascii ''5 mins''
         \<and> formatDuration \<lparr>hours = 2, minutes = 0\<rparr> = ascii ''2 h 0 mins''"
proof -
  have gen: "formatDuration d =
           (if hours d = 0 then digitsOf (nat (minutes d)) @ ascii '' mins''
            else digitsOf (nat (hours d)) @ ascii '' h '' @ digitsOf (nat (minutes d))
                 @ ascii '' mins'')"
    using assms by (auto simp: formatDuration_def numberToString_def Let_def)
  have e1: "formatDuration \<lparr>hours = 0, minutes = 5\<rparr> = ascii ''5 mins''"
    by (simp add: formatDuration_def numberToString_def digitsOf_small ascii_def)
  have e2: "formatDuration \<lparr>hours = 2, minutes = 0\<rparr> = ascii ''2 h 0 mins''"
    by (simp add: formatDuration_def numberToString_def digitsOf_small ascii_def)
  from gen e1 e2 show ?thesis by simp
qed

theorem formatDuration_shape_witness:
  "(0::int) \<le> 1 \<and> (0::int) \<le> 30
   \<and> formatDuration \<lparr>hours = 1, minutes = 30\<rparr> = ascii ''1 h 30 mins''"
proof -
  have "formatDuration \<lparr>hours = 1, minutes = 30\<rparr> =
          digitsOf (nat 1) @ ascii '' h '' @ digitsOf (nat 30) @ ascii '' mins''"
    using formatDuration_shape [of "\<lparr>hours = 1, minutes = 30\<rparr>"] by simp
  then show ?thesis
    by (simp add: digitsOf.simps ascii_def)
qed

section \<open>Properties of the line parser\<close>

lemma matchSeq_Chr:
  "matchSeq (Chr k # xs) (i, r, g) =
     (case r of [] \<Rightarrow> [] | c # cs \<Rightarrow> if inCls k c then matchSeq xs (Suc i, cs, g) else [])"
  by (simp split: list.splits)

lemma matchSeq_clockTimeRx:
  "matchSeq (clockTimeRx @ xs) (i, r, g) =
     (if isClockTime (take 5 r) then matchSeq xs (i + 5, drop 5 r, g) else [])"
proof -
  have unf: "matchSeq (clockTimeRx @ xs) (i, r, g) =
    (case r of [] \<Rightarrow> [] | a # r1 \<Rightarrow> if \<not> isDigit a then [] else
      (case r1 of [] \<Rightarrow> [] | b # r2 \<Rightarrow> if \<not> isDigit b then [] else
        (case r2 of [] \<Rightarrow> [] | c # r3 \<Rightarrow> if c \<noteq> 58 then [] else
          (case r3 of [] \<Rightarrow> [] | d # r4 \<Rightarrow> if \<not> isDigit d then [] else
            (case r4 of [] \<Rightarrow> [] | e # r5 \<Rightarrow> if \<not> isDigit e then [] else
               matchSeq xs (i + 5, r5, g))))))"
  proof -
    have s5: "Suc (Suc (Suc (Suc (Suc i)))) = i + 5" by simp
    show ?thesis
      unfolding clockTimeRx_def lit_def ascii_def
      by (simp add: matchSeq_Chr s5 del: matchSeq.simps split: list.splits)
  qed
  show ?thesis
    unfolding unf
    by (auto simp: isClockTime_def split: list.splits)
qed

lemma matchSeq_Group_clock:
  "matchSeq (Group n clockTimeRx # xs) (i, r, g) =
     (if isClockTime (take 5 r) then matchSeq xs (i + 5, drop 5 r, g(n \<mapsto> take 5 r)) else [])"
  using matchSeq_clockTimeRx [of "[]" i r g] by simp

lemma matchSeq_LazyStar_Nil:
  "matchSeq (LazyStar k # xs) (i, [], g) = matchSeq xs (i, [], g)"
  by simp

lemma matchSeq_LazyStar_Cons:
  "matchSeq (LazyStar k # xs) (i, c # cs, g) =
     matchSeq xs (i, c # cs, g) @ (if inCls k c then matchSeq (LazyStar k # xs) (Suc i, cs, g) else [])"
  by simp

lemma matchSeq_Star_Nil:
  "matchSeq (Star k # xs) (i, [], g) = matchSeq xs (i, [], g)"
  by simp

lemma matchSeq_Star_Cons:
  "matchSeq (Star k # xs) (i, c # cs, g) =
     (if inCls k c then matchSeq (Star k # xs) (Suc i, cs, g) else []) @ matchSeq xs (i, c # cs, g)"
  by simp

lemma matchSeq_Bol:
  "matchSeq (Bol # xs) (i, r, g) = (if i = 0 then matchSeq xs (i, r, g) else [])"
  by simp

declare matchRx.simps [simp del] matchSeq.simps [simp del]

lemma isLine_Cons [simp]: "isLine (c # cs) = (\<not> isLineTerminator c \<and> isLine cs)"
  by (simp add: isLine_def)

lemma isLine_Nil [simp]: "isLine []"
  by (simp add: isLine_def)

lemma isLine_drop: "isLine r \<Longrightarrow> isLine (drop n r)"
  unfolding isLine_def list_all_iff by (auto dest: in_set_dropD)

lemma scanTokens_Nil_iff:
  "scanTokens r = [] \<longleftrightarrow> (\<forall>k. \<not> isClockTime (take 5 (drop k r)))"
proof (induction r)
  case Nil
  show ?case by (simp add: isClockTime_def)
next
  case (Cons c cs)
  show ?case
  proof
    assume h: "scanTokens (c # cs) = []"
    then have front: "\<not> isClockTime (take 5 (c # cs))" and rest: "scanTokens cs = []"
      by (auto split: if_splits)
    show "\<forall>k. \<not> isClockTime (take 5 (drop k (c # cs)))"
    proof
      fix k
      show "\<not> isClockTime (take 5 (drop k (c # cs)))"
      proof (cases k)
        case 0
        with front show ?thesis by simp
      next
        case (Suc k')
        with rest Cons.IH show ?thesis by simp
      qed
    qed
  next
    assume h: "\<forall>k. \<not> isClockTime (take 5 (drop k (c # cs)))"
    from h [rule_format, of 0] have front: "\<not> isClockTime (take 5 (c # cs))" by simp
    have "\<forall>k. \<not> isClockTime (take 5 (drop k cs))"
    proof
      fix k
      from h [rule_format, of "Suc k"] show "\<not> isClockTime (take 5 (drop k cs))" by simp
    qed
    with Cons.IH have "scanTokens cs = []" by simp
    with front show "scanTokens (c # cs) = []" by simp
  qed
qed

lemma scanTokens_drop_Nil: "scanTokens r = [] \<Longrightarrow> scanTokens (drop n r) = []"
  by (simp add: scanTokens_Nil_iff)

lemma scanTokens_two_later:
  "scanTokens r = t1 # t2 # ts \<Longrightarrow> \<exists>p. scanTokens (drop (p + 5) r) \<noteq> []"
proof (induction r)
  case Nil
  then show ?case by simp
next
  case (Cons c cs)
  show ?case
  proof (cases "isClockTime (take 5 (c # cs))")
    case True
    with Cons.prems have "scanTokens (drop 4 cs) = t2 # ts" by simp
    then have "scanTokens (drop (0 + 5) (c # cs)) \<noteq> []" by simp
    then show ?thesis by blast
  next
    case False
    with Cons.prems have "scanTokens cs = t1 # t2 # ts" by simp
    from Cons.IH [OF this] obtain p where "scanTokens (drop (p + 5) cs) \<noteq> []" by blast
    moreover have "drop (Suc p + 5) (c # cs) = drop (p + 5) cs"
      by (simp only: add_Suc drop_Suc_Cons)
    ultimately have "scanTokens (drop (Suc p + 5) (c # cs)) \<noteq> []"
      by metis
    then show ?thesis by blast
  qed
qed

lemma matchSeq_Star_last:
  "\<exists>j r' rest. matchSeq [Star k] (i, r, g) = (j, r', g) # rest"
proof (induction r arbitrary: i)
  case Nil
  show ?case by (simp add: matchSeq_Star_Nil matchSeq.simps(1))
next
  case (Cons c cs)
  from Cons.IH [of "Suc i"] show ?case
    by (cases "inCls k c") (auto simp: matchSeq_Star_Cons matchSeq.simps(1))
qed

lemma second_token:
  assumes "isLine r"
  shows "case scanTokens r of
           [] \<Rightarrow> matchSeq [LazyStar Dot, Group 2 clockTimeRx, Star Dot] (i, r, g) = []
         | t # _ \<Rightarrow> (\<exists>j r' rest. matchSeq [LazyStar Dot, Group 2 clockTimeRx, Star Dot] (i, r, g)
                          = (j, r', g(2 \<mapsto> t)) # rest)"
  using assms
proof (induction r arbitrary: i)
  case Nil
  show ?case
    by (simp add: matchSeq_LazyStar_Nil matchSeq_Group_clock isClockTime_def)
next
  case (Cons c cs)
  let ?P = "[LazyStar Dot, Group 2 clockTimeRx, Star Dot]"
  from Cons.prems have dot: "inCls Dot c" and line: "isLine cs" by simp_all
  have unf: "matchSeq ?P (i, c # cs, g) =
               matchSeq [Group 2 clockTimeRx, Star Dot] (i, c # cs, g) @ matchSeq ?P (Suc i, cs, g)"
    using dot by (simp only: matchSeq_LazyStar_Cons if_True)
  show ?case
  proof (cases "isClockTime (take 5 (c # cs))")
    case True
    obtain j r' rest where
      "matchSeq [Star Dot] (i + 5, drop 5 (c # cs), g(2 \<mapsto> take 5 (c # cs))) =
         (j, r', g(2 \<mapsto> take 5 (c # cs))) # rest"
      using matchSeq_Star_last by blast
    with True have "matchSeq [Group 2 clockTimeRx, Star Dot] (i, c # cs, g) =
         (j, r', g(2 \<mapsto> take 5 (c # cs))) # rest"
      by (simp only: matchSeq_Group_clock if_True)
    with True show ?thesis
      unfolding unf by simp
  next
    case False
    then have "matchSeq [Group 2 clockTimeRx, Star Dot] (i, c # cs, g) = []"
      by (simp only: matchSeq_Group_clock if_False)
    with unf have same: "matchSeq ?P (i, c # cs, g) = matchSeq ?P (Suc i, cs, g)"
      by simp
    from False have toks: "scanTokens (c # cs) = scanTokens cs"
      by simp
    from Cons.IH [OF line, of "Suc i"] show ?thesis
      unfolding same toks .
  qed
qed

lemma both_tokens:
  assumes "isLine r"
  shows "(matchSeq [LazyStar Dot, Group 1 clockTimeRx, LazyStar Dot, Group 2 clockTimeRx, Star Dot]
            (i, r, g) = [] \<and> length (scanTokens r) < 2)
         \<or> (\<exists>t1 t2 ts j r' rest. scanTokens r = t1 # t2 # ts
               \<and> matchSeq [LazyStar Dot, Group 1 clockTimeRx, LazyStar Dot, Group 2 clockTimeRx,
                     Star Dot] (i, r, g) = (j, r', g(1 \<mapsto> t1, 2 \<mapsto> t2)) # rest)"
  using assms
proof (induction r arbitrary: i)
  case Nil
  show ?case
    by (simp add: matchSeq_LazyStar_Nil matchSeq_Group_clock isClockTime_def)
next
  case (Cons c cs)
  let ?P2 = "[LazyStar Dot, Group 2 clockTimeRx, Star Dot]"
  let ?P1 = "LazyStar Dot # Group 1 clockTimeRx # ?P2"
  from Cons.prems have dot: "inCls Dot c" and line: "isLine cs" by simp_all
  have unf: "matchSeq ?P1 (i, c # cs, g) =
               matchSeq (Group 1 clockTimeRx # ?P2) (i, c # cs, g) @ matchSeq ?P1 (Suc i, cs, g)"
    using dot by (simp only: matchSeq_LazyStar_Cons if_True)
  note IH = Cons.IH [OF line, of "Suc i"]
  show ?case
  proof (cases "isClockTime (take 5 (c # cs))")
    case True
    let ?t1 = "take 5 (c # cs)"
    have grp: "matchSeq (Group 1 clockTimeRx # ?P2) (i, c # cs, g) =
                 matchSeq ?P2 (i + 5, drop 4 cs, g(1 \<mapsto> ?t1))"
      using True by (simp only: matchSeq_Group_clock if_True) simp
    from True have toks: "scanTokens (c # cs) = ?t1 # scanTokens (drop 4 cs)"
      by simp
    note snd = second_token [OF isLine_drop [OF line, of 4], of "i + 5" "g(1 \<mapsto> ?t1)"]
    show ?thesis
    proof (cases "scanTokens (drop 4 cs)")
      case Nil
      with snd have none: "matchSeq ?P2 (i + 5, drop 4 cs, g(1 \<mapsto> ?t1)) = []"
        by simp
      have "matchSeq ?P1 (Suc i, cs, g) = []"
      proof (rule ccontr)
        assume "matchSeq ?P1 (Suc i, cs, g) \<noteq> []"
        with IH obtain t1 t2 ts where "scanTokens cs = t1 # t2 # ts" by auto
        from scanTokens_two_later [OF this] obtain p where
          p: "scanTokens (drop (p + 5) cs) \<noteq> []" by blast
        have "drop (p + 5) cs = drop (p + 1) (drop 4 cs)"
          by (simp add: add.commute)
        with scanTokens_drop_Nil [OF Nil, of "p + 1"] p show False by simp
      qed
      with none grp unf have "matchSeq ?P1 (i, c # cs, g) = []" by simp
      moreover from toks Nil have "length (scanTokens (c # cs)) < 2" by simp
      ultimately show ?thesis by blast
    next
      case (Cons t2 ts)
      with snd obtain j r' rest where
        "matchSeq ?P2 (i + 5, drop 4 cs, g(1 \<mapsto> ?t1)) = (j, r', g(1 \<mapsto> ?t1, 2 \<mapsto> t2)) # rest"
        by auto
      with grp unf have "matchSeq ?P1 (i, c # cs, g) =
          (j, r', g(1 \<mapsto> ?t1, 2 \<mapsto> t2)) # (rest @ matchSeq ?P1 (Suc i, cs, g))"
        by simp
      moreover from toks Cons have "scanTokens (c # cs) = ?t1 # t2 # ts" by simp
      ultimately show ?thesis by blast
    qed
  next
    case False
    then have "matchSeq (Group 1 clockTimeRx # ?P2) (i, c # cs, g) = []"
      by (simp only: matchSeq_Group_clock if_False)
    with unf have same: "matchSeq ?P1 (i, c # cs, g) = matchSeq ?P1 (Suc i, cs, g)"
      by simp
    from False have toks: "scanTokens (c # cs) = scanTokens cs"
      by simp
    from IH show ?thesis
      unfolding same toks .
  qed
qed

lemma execFrom_Bol_later: "0 < i \<Longrightarrow> execFrom (Bol # p) i r = None"
proof (induction r arbitrary: i)
  case Nil
  then show ?case by (simp add: execFrom.simps matchSeq_Bol)
next
  case (Cons c cs)
  from Cons.prems Cons.IH [of "Suc i"] show ?case
    by (subst execFrom.simps) (simp add: matchSeq_Bol)
qed

lemma regexExec_Bol:
  "regexExec (Bol # p) s =
     (case matchSeq p (0, s, Map.empty) of
        (j, r', g) # _ \<Rightarrow>
          Some \<lparr>index = 0,
                elems = Some (take j s) # map g [1 ..< Suc (sum_list (map groupCount p))]\<rparr>
      | [] \<Rightarrow> None)"
proof (cases "matchSeq p (0, s, Map.empty)")
  case Nil
  then show ?thesis
    unfolding regexExec_def
    by (subst execFrom.simps) (simp add: execFrom_Bol_later matchSeq_Bol split: list.splits)
next
  case (Cons st sts)
  then show ?thesis
    unfolding regexExec_def
    by (subst execFrom.simps) (simp add: matchSeq_Bol split: prod.splits)
qed

lemma groupCount_clockTimeRx: "sum_list (map groupCount clockTimeRx) = 0"
  by (simp add: clockTimeRx_def lit_def ascii_def)

lemma regexExec_timeRangeRx:
  assumes "isLine s"
  shows "case scanTokens s of
           t1 # t2 # _ \<Rightarrow> (\<exists>whole. regexExec timeRangeRx s =
                Some \<lparr>index = 0, elems = [Some whole, Some t1, Some t2]\<rparr>)
         | _ \<Rightarrow> regexExec timeRangeRx s = None"
proof -
  let ?P1 = "[LazyStar Dot, Group 1 clockTimeRx, LazyStar Dot, Group 2 clockTimeRx, Star Dot]"
  have cnt: "[1 ..< Suc (sum_list (map groupCount ?P1))] = [1, 2]"
    by (simp add: groupCount_clockTimeRx upt_rec)
  have ex: "regexExec timeRangeRx s =
     (case matchSeq ?P1 (0, s, Map.empty) of
        (j, r', g) # _ \<Rightarrow> Some \<lparr>index = 0, elems = Some (take j s) # map g [1, 2]\<rparr>
      | [] \<Rightarrow> None)"
    unfolding timeRangeRx_def regexExec_Bol cnt ..
  from both_tokens [OF assms, of 0 Map.empty]
  show ?thesis
  proof (elim disjE conjE exE)
    assume "matchSeq ?P1 (0, s, Map.empty) = []" and "length (scanTokens s) < 2"
    then show ?thesis
      unfolding ex by (cases "scanTokens s"; simp split: list.splits)
  next
    fix t1 t2 ts j r' rest
    assume "scanTokens s = t1 # t2 # ts"
      and "matchSeq ?P1 (0, s, Map.empty) = (j, r', [1 \<mapsto> t1, 2 \<mapsto> t2]) # rest"
    then show ?thesis
      unfolding ex by simp
  qed
qed

lemma scanTokens_clock: "t \<in> set (scanTokens r) \<Longrightarrow> isClockTime t"
  by (induction r rule: scanTokens.induct) (auto split: if_splits)



lemma matchSeq_Nil: "matchSeq [] st = [st]"
  by (simp add: matchSeq.simps)



lemma matchSeq_Group:
  "matchSeq (Group n rs # xs) (i, r, g) =
     concat (map (\<lambda>(j, r', g'). matchSeq xs (j, r', g'(n \<mapsto> take (j - i) r)))
                 (matchSeq rs (i, r, g)))"
  by (simp add: matchSeq.simps matchRx.simps comp_def split_def)



















text \<open>Whatever the text, a match of the duration pattern sets both groups to clock times.\<close>

lemma second_group_clock:
  "\<forall>(j, r', g') \<in> set (matchSeq [LazyStar Dot, Group 2 clockTimeRx, Star Dot] (i, r, g)).
     g' 1 = g 1 \<and> (\<exists>t. g' 2 = Some t \<and> isClockTime t)"
proof (induction r arbitrary: i)
  case Nil
  show ?case
    by (simp add: matchSeq_LazyStar_Nil matchSeq_Group_clock isClockTime_def)
next
  case (Cons c cs)
  have star: "\<And>j r0 g0. \<forall>(j', r', g') \<in> set (matchSeq [Star Dot] (j, r0, g0)). g' = g0"
    by (auto simp: matchSeq.simps matchRx.simps)
  have here: "\<forall>(j, r', g') \<in> set (matchSeq [Group 2 clockTimeRx, Star Dot] (i, c # cs, g)).
     g' 1 = g 1 \<and> (\<exists>t. g' 2 = Some t \<and> isClockTime t)"
    using star [of "i + 5" "drop 5 (c # cs)" "g(2 \<mapsto> take 5 (c # cs))"]
    by (auto simp: matchSeq_Group_clock)
  from here Cons.IH [of "Suc i"] show ?case
    by (auto simp: matchSeq_LazyStar_Cons)
qed

lemma both_groups_clock:
  "\<forall>(j, r', g') \<in> set (matchSeq [LazyStar Dot, Group 1 clockTimeRx, LazyStar Dot,
                                    Group 2 clockTimeRx, Star Dot] (i, r, g)).
     (\<exists>t. g' 1 = Some t \<and> isClockTime t) \<and> (\<exists>t. g' 2 = Some t \<and> isClockTime t)"
proof (induction r arbitrary: i)
  case Nil
  show ?case
    by (simp add: matchSeq_LazyStar_Nil matchSeq_Group_clock isClockTime_def)
next
  case (Cons c cs)
  have here: "\<forall>(j, r', g') \<in> set (matchSeq [Group 1 clockTimeRx, LazyStar Dot,
                                    Group 2 clockTimeRx, Star Dot] (i, c # cs, g)).
     (\<exists>t. g' 1 = Some t \<and> isClockTime t) \<and> (\<exists>t. g' 2 = Some t \<and> isClockTime t)"
    using second_group_clock [of "i + 5" "drop 5 (c # cs)" "g(1 \<mapsto> take 5 (c # cs))"]
    by (auto simp: matchSeq_Group_clock)
  from here Cons.IH [of "Suc i"] show ?case
    by (auto simp: matchSeq_LazyStar_Cons)
qed

lemma regexExec_timeRangeRx_groups:
  assumes "regexExec timeRangeRx s = Some m"
  shows "\<exists>whole t1 t2. elems m = [Some whole, Some t1, Some t2] \<and> isClockTime t1 \<and> isClockTime t2"
proof -
  let ?P1 = "[LazyStar Dot, Group 1 clockTimeRx, LazyStar Dot, Group 2 clockTimeRx, Star Dot]"
  have cnt: "[1 ..< Suc (sum_list (map groupCount ?P1))] = [1, 2]"
    by (simp add: groupCount_clockTimeRx upt_rec)
  from assms obtain j r' g rest where
    ms: "matchSeq ?P1 (0, s, Map.empty) = (j, r', g) # rest"
    and m: "m = \<lparr>index = 0, elems = Some (take j s) # map g [1, 2]\<rparr>"
    unfolding timeRangeRx_def regexExec_Bol cnt
    by (auto split: list.splits)
  from both_groups_clock [of 0 s Map.empty] ms
  obtain t1 t2 where "g 1 = Some t1" "isClockTime t1" "g 2 = Some t2" "isClockTime t2"
    by auto
  with m show ?thesis by simp
qed

lemma diffDuration_valid: "diffDuration t1 t2 = Some d \<Longrightarrow> validDuration d"
  by (auto simp: diffDuration_def validDuration_def Let_def jsRem_nonneg pos_imp_zdiv_nonneg_iff
      split: option.splits)

lemma bulletNodeDuration_total:
  "\<exists>d. bulletNodeDuration s = Inr d \<and> (\<forall>x. d = Some x \<longrightarrow> validDuration x)"
proof (cases "regexExec timeRangeRx s")
  case None
  then show ?thesis by (simp add: bulletNodeDuration_def)
next
  case (Some m)
  from regexExec_timeRangeRx_groups [OF Some] obtain whole t1 t2 where
    e: "elems m = [Some whole, Some t1, Some t2]" and c: "isClockTime t1" "isClockTime t2"
    by blast
  from diffDuration_clock [OF c] obtain d where d: "diffDuration t1 t2 = Some d" by blast
  from diffDuration_valid [OF d] Some e d show ?thesis
    by (simp add: bulletNodeDuration_def)
qed

lemma matchSeq_listNodeName:
  "matchSeq (lit ''list-'' @ [Group 1 [Chr Digit]]) (0, s, Map.empty) =
     (if isListItemName s then [(6, drop 6 s, [1 \<mapsto> [s ! 5]])] else [])"
proof -
  have unf: "matchSeq (lit ''list-'' @ [Group 1 [Chr Digit]]) (0, s, Map.empty) =
    (case s of [] \<Rightarrow> [] | a # r1 \<Rightarrow> if a \<noteq> 108 then [] else
      (case r1 of [] \<Rightarrow> [] | b # r2 \<Rightarrow> if b \<noteq> 105 then [] else
        (case r2 of [] \<Rightarrow> [] | c # r3 \<Rightarrow> if c \<noteq> 115 then [] else
          (case r3 of [] \<Rightarrow> [] | d # r4 \<Rightarrow> if d \<noteq> 116 then [] else
            (case r4 of [] \<Rightarrow> [] | e # r5 \<Rightarrow> if e \<noteq> 45 then [] else
              (case r5 of [] \<Rightarrow> [] | f # r6 \<Rightarrow> if \<not> isDigit f then [] else
                 [(6, r6, [1 \<mapsto> [f]])]))))))"
    unfolding lit_def ascii_def
    by (simp add: matchSeq_Chr matchSeq_Group matchSeq_Nil split: list.splits)
  show ?thesis
    unfolding unf
    by (auto simp: isListItemName_def ascii_def split: list.splits)
qed

lemma regexExec_listNodeNameRx:
  "regexExec listNodeNameRx name =
     (if isListItemName name
      then Some \<lparr>index = 0, elems = [Some (take 6 name), Some [name ! 5]]\<rparr>
      else None)"
proof -
  have cnt: "[1 ..< Suc (sum_list (map groupCount (lit ''list-'' @ [Group 1 [Chr Digit]])))] = [1]"
    by (simp add: lit_def ascii_def)
  show ?thesis
    unfolding listNodeNameRx_def append_Cons append_Nil regexExec_Bol cnt matchSeq_listNodeName
    by simp
qed

lemma parseInt_digit: "isDigit c \<Longrightarrow> parseInt [c] = Some (digitValue c)"
  by (simp add: parseInt_def decimalValue_def)

lemma listNodeLevel_eq:
  "listNodeLevel name =
     (if isListItemName name then Some (Inr (digitValue (name ! 5))) else None)"
  by (simp add: listNodeLevel_def regexExec_listNodeNameRx parseInt_digit isListItemName_def)

lemma popParent_None: "popParent ts l None = Some None"
  by (subst popParent.simps) simp

lemma popParent_Some:
  "popParent ts l (Some p) =
     (if levelOf ts p \<ge> l then popParent ts l (parentOf ts p) else Some (Some p))"
  by (subst popParent.simps) simp

lemma popParent_nearest:
  assumes inv: "\<forall>k < n. nearestParent st k"
    and l: "1 \<le> l"
  shows "refEnd p \<le> n \<Longrightarrow>
         \<exists>q. popParent (tasks st) l (Some p) = Some (Some q)
           \<and> levelOf (tasks st) q < l \<and> refEnd q \<le> refEnd p
           \<and> (\<forall>j. refEnd q \<le> j \<and> j < refEnd p \<longrightarrow> l \<le> cell_level (tasks st ! j))"
proof (induction "refEnd p" arbitrary: p rule: less_induct)
  case less
  show ?case
  proof (cases p)
    case RootTask
    with l show ?thesis
      by (simp add: popParent_Some)
  next
    case (Task i)
    with less.prems have i: "i < n" by simp
    show ?thesis
    proof (cases "l \<le> cell_level (tasks st ! i)")
      case False
      with Task show ?thesis
        by (simp add: popParent_Some)
    next
      case True
      from inv i have np: "nearestParent st i" by simp
      then obtain p' where p': "cell_parent (tasks st ! i) = Some p'"
        and before: "refEnd p' \<le> i"
        and near: "\<forall>j \<in> {refEnd p' ..< i}. cell_level (tasks st ! i) \<le> cell_level (tasks st ! j)"
        by (auto simp: nearestParent_def split: option.splits)
      from before Task have smaller: "refEnd p' < refEnd p" by simp
      from before i have "refEnd p' \<le> n" by simp
      from less.hyps [OF smaller this] obtain q where
        q: "popParent (tasks st) l (Some p') = Some (Some q)"
        and ql: "levelOf (tasks st) q < l" and qe: "refEnd q \<le> refEnd p'"
        and qr: "\<forall>j. refEnd q \<le> j \<and> j < refEnd p' \<longrightarrow> l \<le> cell_level (tasks st ! j)"
        by blast
      have step: "popParent (tasks st) l (Some p) = Some (Some q)"
        using True Task p' q by (simp add: popParent_Some)
      have range: "\<forall>j. refEnd q \<le> j \<and> j < refEnd p \<longrightarrow> l \<le> cell_level (tasks st ! j)"
      proof (intro allI impI)
        fix j
        assume j: "refEnd q \<le> j \<and> j < refEnd p"
        show "l \<le> cell_level (tasks st ! j)"
        proof (cases "j < refEnd p'")
          case True
          with j qr show ?thesis by simp
        next
          case False
          show ?thesis
          proof (cases "j = i")
            case True
            with \<open>l \<le> cell_level (tasks st ! i)\<close> show ?thesis by simp
          next
            case False
            with \<open>\<not> j < refEnd p'\<close> j Task have "j \<in> {refEnd p' ..< i}" by simp
            with near have "cell_level (tasks st ! i) \<le> cell_level (tasks st ! j)" by blast
            with \<open>l \<le> cell_level (tasks st ! i)\<close> show ?thesis by simp
          qed
        qed
      qed
      from qe smaller have "refEnd q \<le> refEnd p" by simp
      with step ql range show ?thesis by blast
    qed
  qed
qed

lemma refEnd_lastRef [simp]: "refEnd (lastRef n) = n"
  by (simp add: lastRef_def)

lemma attachTask_length: "length (tasks (attachTask q c st)) = Suc (length (tasks st))"
  by (cases q) (simp_all add: attachTask_def)

lemma attachTask_old:
  assumes "k < length (tasks st)"
  shows "cell_level (tasks (attachTask q c st) ! k) = cell_level (tasks st ! k)"
    and "cell_parent (tasks (attachTask q c st) ! k) = cell_parent (tasks st ! k)"
    and "cell_duration (tasks (attachTask q c st) ! k) = cell_duration (tasks st ! k)"
    and "cell_position (tasks (attachTask q c st) ! k) = cell_position (tasks st ! k)"
    and "cell_markPos (tasks (attachTask q c st) ! k) = cell_markPos (tasks st ! k)"
    and "set (cell_children (tasks st ! k)) \<subseteq> set (cell_children (tasks (attachTask q c st) ! k))"
  using assms by (cases q; auto simp: attachTask_def nth_append nth_list_update)+

lemma attachTask_old_children:
  assumes "k < length (tasks st)"
  shows "set (cell_children (tasks (attachTask q c st) ! k))
           \<subseteq> set (cell_children (tasks st ! k)) \<union> {length (tasks st)}"
proof (cases q)
  case RootTask
  with assms have "cell_children (tasks (attachTask q c st) ! k) = cell_children (tasks st ! k)"
    by (simp add: attachTask_def nth_append)
  then show ?thesis by auto
next
  case (Task i)
  show ?thesis
  proof (cases "i = k")
    case True
    with Task assms have "cell_children (tasks (attachTask q c st) ! k)
                            = cell_children (tasks st ! k) @ [length (tasks st)]"
      by (simp add: attachTask_def nth_append)
    then show ?thesis by auto
  next
    case False
    with Task assms have "cell_children (tasks (attachTask q c st) ! k) = cell_children (tasks st ! k)"
      by (simp add: attachTask_def nth_append)
    then show ?thesis by auto
  qed
qed

lemma attachTask_new:
  assumes "refEnd q \<le> length (tasks st)"
  shows "cell_level (tasks (attachTask q c st) ! length (tasks st)) = cell_level c"
    and "cell_parent (tasks (attachTask q c st) ! length (tasks st)) = cell_parent c"
    and "cell_duration (tasks (attachTask q c st) ! length (tasks st)) = cell_duration c"
    and "length (tasks st) \<in> set (childrenOf (attachTask q c st) q)"
    and "set (rootChildren (attachTask q c st)) \<subseteq> set (rootChildren st) \<union> {length (tasks st)}"
    and "set (rootChildren st) \<subseteq> set (rootChildren (attachTask q c st))"
    and "currentParent (attachTask q c st) = Some (Task (length (tasks st)))"
  using assms by (cases q; auto simp: attachTask_def nth_append nth_list_update)+

lemma attachTask_new_children:
  assumes "refEnd q \<le> length (tasks st)"
  shows "cell_children (tasks (attachTask q c st) ! length (tasks st)) = cell_children c"
  using assms by (cases q) (simp_all add: attachTask_def nth_append)

lemma attachTask_levelOf:
  "refEnd p \<le> length (tasks st) \<Longrightarrow> levelOf (tasks (attachTask q c st)) p = levelOf (tasks st) p"
  by (cases p) (simp_all add: attachTask_old)

lemma attachTask_childrenOf:
  "refEnd p \<le> length (tasks st) \<Longrightarrow>
   set (childrenOf st p) \<subseteq> set (childrenOf (attachTask q c st) p)"
  by (cases p; cases q) (auto simp: attachTask_def nth_append nth_list_update)

lemma builderInvD:
  assumes "builderInv st"
  shows "k < length (tasks st) \<Longrightarrow> nearestParent st k"
    and "k < length (tasks st) \<Longrightarrow> 1 \<le> cell_level (tasks st ! k)"
    and "currentParent st = Some (lastRef (length (tasks st)))"
    and "r \<in> set (rootChildren st) \<Longrightarrow> r < length (tasks st)"
    and "k < length (tasks st) \<Longrightarrow> x \<in> set (cell_children (tasks st ! k)) \<Longrightarrow>
           k < x \<and> x < length (tasks st)"
    and "t \<in> set (tasks st) \<Longrightarrow> cell_duration t = Some d \<Longrightarrow> validDuration d"
  using assms unfolding builderInv_def by blast+

lemma builderInvI:
  assumes "\<And>k. k < length (tasks st) \<Longrightarrow> nearestParent st k"
    and "\<And>k. k < length (tasks st) \<Longrightarrow> 1 \<le> cell_level (tasks st ! k)"
    and "currentParent st = Some (lastRef (length (tasks st)))"
    and "\<And>r. r \<in> set (rootChildren st) \<Longrightarrow> r < length (tasks st)"
    and "\<And>k x. k < length (tasks st) \<Longrightarrow> x \<in> set (cell_children (tasks st ! k)) \<Longrightarrow>
           k < x \<and> x < length (tasks st)"
    and "\<And>t d. t \<in> set (tasks st) \<Longrightarrow> cell_duration t = Some d \<Longrightarrow> validDuration d"
  shows "builderInv st"
  using assms unfolding builderInv_def by blast

lemma attachTask_inv:
  assumes inv: "builderInv st"
    and qe: "refEnd q \<le> length (tasks st)"
    and ql: "levelOf (tasks st) q < cell_level c"
    and qr: "\<forall>j. refEnd q \<le> j \<and> j < length (tasks st) \<longrightarrow> cell_level c \<le> cell_level (tasks st ! j)"
    and qp: "cell_parent c = Some q"
    and cc: "cell_children c = []"
    and cv: "\<forall>d. cell_duration c = Some d \<longrightarrow> validDuration d"
  shows "builderInv (attachTask q c st)"
proof -
  let ?n = "length (tasks st)"
  let ?st' = "attachTask q c st"
  have len: "length (tasks ?st') = Suc ?n" by (rule attachTask_length)
  have near: "nearestParent ?st' k" if k: "k < Suc ?n" for k
  proof (cases "k < ?n")
    case True
    with inv have "nearestParent st k" by (rule builderInvD(1))
    then obtain p where p: "cell_parent (tasks st ! k) = Some p"
      and pe: "refEnd p \<le> k"
      and pl: "levelOf (tasks st) p < cell_level (tasks st ! k)"
      and pr: "\<forall>j \<in> {refEnd p ..< k}. cell_level (tasks st ! k) \<le> cell_level (tasks st ! j)"
      and pc: "k \<in> set (childrenOf st p)"
      by (auto simp: nearestParent_def split: option.splits)
    from pe True have pn: "refEnd p \<le> ?n" by simp
    have r: "\<forall>j \<in> {refEnd p ..< k}. cell_level (tasks ?st' ! k) \<le> cell_level (tasks ?st' ! j)"
    proof
      fix j assume j: "j \<in> {refEnd p ..< k}"
      with True have "j < ?n" by simp
      with pr j True show "cell_level (tasks ?st' ! k) \<le> cell_level (tasks ?st' ! j)"
        by (simp add: attachTask_old)
    qed
    from pc attachTask_childrenOf [OF pn, of q c] have "k \<in> set (childrenOf ?st' p)" by blast
    with p pe pl r True pn show ?thesis
      by (simp add: nearestParent_def attachTask_old attachTask_levelOf)
  next
    case False
    with k have kn: "k = ?n" by simp
    have r: "\<forall>j \<in> {refEnd q ..< ?n}. cell_level c \<le> cell_level (tasks ?st' ! j)"
    proof
      fix j assume j: "j \<in> {refEnd q ..< ?n}"
      with qr show "cell_level c \<le> cell_level (tasks ?st' ! j)"
        by (simp add: attachTask_old)
    qed
    from qe ql qp r show ?thesis
      unfolding kn nearestParent_def
      by (simp add: attachTask_new [OF qe] attachTask_levelOf)
  qed
  have cur: "currentParent ?st' = Some (lastRef (Suc ?n))"
    by (simp add: attachTask_new [OF qe] lastRef_def)
  have roots: "\<forall>r \<in> set (rootChildren ?st'). r < Suc ?n"
  proof
    fix r assume "r \<in> set (rootChildren ?st')"
    with attachTask_new(5) [OF qe, of c] have "r \<in> set (rootChildren st) \<or> r = ?n" by blast
    with builderInvD(4) [OF inv, of r] show "r < Suc ?n" by auto
  qed
  have valid: "\<forall>t \<in> set (tasks ?st'). \<forall>d. cell_duration t = Some d \<longrightarrow> validDuration d"
  proof (intro ballI allI impI)
    fix t d assume t: "t \<in> set (tasks ?st')" and d: "cell_duration t = Some d"
    from t obtain k where k: "k < Suc ?n" and tk: "t = tasks ?st' ! k"
      by (auto simp: in_set_conv_nth len)
    show "validDuration d"
    proof (cases "k < ?n")
      case True
      with d tk have "cell_duration (tasks st ! k) = Some d" by (simp add: attachTask_old)
      moreover from True have "tasks st ! k \<in> set (tasks st)" by simp
      ultimately show ?thesis by (rule builderInvD(6) [OF inv, rotated])
    next
      case False
      with k have "k = ?n" by simp
      with d tk cv show ?thesis by (simp add: attachTask_new [OF qe])
    qed
  qed
  have "0 \<le> levelOf (tasks st) q"
  proof (cases q)
    case RootTask
    then show ?thesis by simp
  next
    case (Task i)
    with qe have "i < ?n" by simp
    with inv have "1 \<le> cell_level (tasks st ! i)" by (rule builderInvD(2))
    with Task show ?thesis by simp
  qed
  with ql have cl: "1 \<le> cell_level c" by simp
  have lvl: "1 \<le> cell_level (tasks ?st' ! k)" if k: "k < Suc ?n" for k
  proof (cases "k < ?n")
    case True
    with builderInvD(2) [OF inv, of k] show ?thesis by (simp add: attachTask_old)
  next
    case False
    with k have "k = ?n" by simp
    with cl show ?thesis by (simp add: attachTask_new [OF qe])
  qed
  have kids: "\<forall>k < Suc ?n. \<forall>x \<in> set (cell_children (tasks ?st' ! k)). k < x \<and> x < Suc ?n"
  proof (intro allI impI ballI)
    fix k x assume k: "k < Suc ?n" and x: "x \<in> set (cell_children (tasks ?st' ! k))"
    show "k < x \<and> x < Suc ?n"
    proof (cases "k < ?n")
      case True
      with x attachTask_old_children [OF True, of q c]
      have "x \<in> set (cell_children (tasks st ! k)) \<or> x = ?n" by blast
      then show ?thesis
      proof
        assume "x \<in> set (cell_children (tasks st ! k))"
        from builderInvD(5) [OF inv True this] show ?thesis by simp
      next
        assume "x = ?n"
        with True show ?thesis by simp
      qed
    next
      case False
      with k have "k = ?n" by simp
      with x cc show ?thesis by (simp add: attachTask_new_children [OF qe])
    qed
  qed
  show ?thesis
  proof (rule builderInvI)
    show "nearestParent ?st' k" if "k < length (tasks ?st')" for k
      using that near by (simp add: len)
    show "1 \<le> cell_level (tasks ?st' ! k)" if "k < length (tasks ?st')" for k
      using that lvl by (simp add: len)
    show "currentParent ?st' = Some (lastRef (length (tasks ?st')))"
      using cur by (simp add: len)
    show "r < length (tasks ?st')" if "r \<in> set (rootChildren ?st')" for r
    proof -
      from roots that have "r < Suc ?n" by blast
      then show ?thesis by (simp add: len)
    qed
    show "k < x \<and> x < length (tasks ?st')"
      if "k < length (tasks ?st')" "x \<in> set (cell_children (tasks ?st' ! k))" for k x
    proof -
      from that(1) have "k < Suc ?n" by (simp add: len)
      with kids that(2) have "k < x \<and> x < Suc ?n" by blast
      then show ?thesis by (simp add: len)
    qed
    show "validDuration d" if "t \<in> set (tasks ?st')" "cell_duration t = Some d" for t d
      using that valid by blast
  qed
qed

lemma enter_step:
  assumes inv: "builderInv st"
    and lv: "listNodeLevel (node_name node) = Some (Inr l)"
    and l: "1 \<le> l"
  shows "\<exists>st'. enter node st = Some (Inr st') \<and> builderInv st'
           \<and> map cell_level (tasks st') = map cell_level (tasks st) @ [l]"
proof -
  let ?n = "length (tasks st)"
  from bulletNodeDuration_total obtain dur where
    dur: "bulletNodeDuration (bulletValue node) = Inr dur"
    and dv: "\<forall>x. dur = Some x \<longrightarrow> validDuration x" by blast
  from inv have near: "\<forall>k < ?n. nearestParent st k"
    and cur: "currentParent st = Some (lastRef ?n)"
    by (simp_all add: builderInvD(1,3))
  from popParent_nearest [OF near l, of "lastRef ?n"] obtain q where
    pop: "popParent (tasks st) l (Some (lastRef ?n)) = Some (Some q)"
    and ql: "levelOf (tasks st) q < l" and qe: "refEnd q \<le> ?n"
    and qr: "\<forall>j. refEnd q \<le> j \<and> j < ?n \<longrightarrow> l \<le> cell_level (tasks st ! j)"
    by auto
  let ?c = "\<lparr>cell_level = l, cell_position = node_to node,
             cell_markPos = markPosOf (node_from node) (bulletValue node),
             cell_parent = Some q, cell_duration = dur, cell_children = []\<rparr>"
  have e: "enter node st = Some (Inr (attachTask q ?c st))"
    by (simp add: enter_def lv dur cur pop)
  have i: "builderInv (attachTask q ?c st)"
    using inv qe ql qr dv by (intro attachTask_inv) simp_all
  have lvls: "map cell_level (tasks (attachTask q ?c st)) = map cell_level (tasks st) @ [l]"
  proof (rule nth_equalityI)
    show "length (map cell_level (tasks (attachTask q ?c st))) = length (map cell_level (tasks st) @ [l])"
      by (simp add: attachTask_length)
  next
    fix k assume "k < length (map cell_level (tasks (attachTask q ?c st)))"
    then have k: "k < Suc ?n" by (simp add: attachTask_length)
    show "map cell_level (tasks (attachTask q ?c st)) ! k = (map cell_level (tasks st) @ [l]) ! k"
    proof (cases "k < ?n")
      case True
      then show ?thesis
        by (simp add: attachTask_length attachTask_old nth_append)
    next
      case False
      with k have "k = ?n" by simp
      then show ?thesis
        by (simp add: attachTask_length attachTask_new [OF qe] nth_append)
    qed
  qed
  from e i lvls show ?thesis by blast
qed

lemma listNodeLevel_cases:
  "listNodeLevel name = None \<or> (\<exists>l. listNodeLevel name = Some (Inr l))"
  by (simp add: listNodeLevel_eq)

lemma iterate_inv:
  assumes "builderInv st"
    and "\<forall>node \<in> set nodes. \<forall>l. listNodeLevel (node_name node) = Some (Inr l) \<longrightarrow> 1 \<le> l"
  shows "\<exists>st'. iterate nodes st = Some (Inr st') \<and> builderInv st'
           \<and> map cell_level (tasks st') = map cell_level (tasks st) @ streamLevels nodes"
  using assms
proof (induction nodes arbitrary: st)
  case Nil
  then show ?case by (simp add: streamLevels_def)
next
  case (Cons node nodes)
  from listNodeLevel_cases [of "node_name node"] show ?case
  proof
    assume none: "listNodeLevel (node_name node) = None"
    then have "enter node st = Some (Inr st)" by (simp add: enter_def)
    with Cons.IH [of st] Cons.prems none show ?thesis
      by (simp add: streamLevels_def)
  next
    assume "\<exists>l. listNodeLevel (node_name node) = Some (Inr l)"
    then obtain l where lv: "listNodeLevel (node_name node) = Some (Inr l)" by blast
    with Cons.prems have "1 \<le> l" by simp
    from enter_step [OF Cons.prems(1) lv this] obtain st1 where
      e: "enter node st = Some (Inr st1)" and i: "builderInv st1"
      and lvls: "map cell_level (tasks st1) = map cell_level (tasks st) @ [l]"
      by blast
    from Cons.IH [OF i] Cons.prems(2) obtain st' where
      "iterate nodes st1 = Some (Inr st')" "builderInv st'"
      "map cell_level (tasks st') = map cell_level (tasks st1) @ streamLevels nodes"
      by auto
    with e lvls lv show ?thesis
      by (simp add: streamLevels_def)
  qed
qed

lemma builderInv_rootTask: "builderInv rootTask"
  by (rule builderInvI) (simp_all add: rootTask_def lastRef_def)

text \<open>A list item of level 0 or less pops the cursor past the root.\<close>

lemma popParent_bottom:
  assumes inv: "builderInv st" and l: "l \<le> 0"
  shows "refEnd p \<le> length (tasks st) \<Longrightarrow> popParent (tasks st) l (Some p) = Some None"
proof (induction "refEnd p" arbitrary: p rule: less_induct)
  case less
  show ?case
  proof (cases p)
    case RootTask
    with l show ?thesis
      by (simp add: popParent_Some popParent_None)
  next
    case (Task i)
    with less.prems have i: "i < length (tasks st)" by simp
    from builderInvD(2) [OF inv i] l have ge: "l \<le> cell_level (tasks st ! i)" by simp
    from builderInvD(1) [OF inv i] obtain p' where
      p': "cell_parent (tasks st ! i) = Some p'" and before: "refEnd p' \<le> i"
      by (auto simp: nearestParent_def split: option.splits)
    from before Task have smaller: "refEnd p' < refEnd p" by simp
    from before i have "refEnd p' \<le> length (tasks st)" by simp
    from less.hyps [OF smaller this] ge Task p' show ?thesis
      by (simp add: popParent_Some)
  qed
qed

lemma enter_level_TypeError:
  assumes "builderInv st" and "listNodeLevel (node_name node) = Some (Inr l)" and "l \<le> 0"
  shows "enter node st = Some (Inl TypeError)"
proof -
  from bulletNodeDuration_total obtain dur where
    dur: "bulletNodeDuration (bulletValue node) = Inr dur" by blast
  have "popParent (tasks st) l (currentParent st) = Some None"
    unfolding builderInvD(3) [OF assms(1)]
    by (rule popParent_bottom [OF assms(1,3)]) simp
  with assms(2) dur show ?thesis
    by (simp add: enter_def)
qed

lemma enter_inv:
  assumes inv: "builderInv st" and e: "enter node st = Some (Inr st')"
  shows "builderInv st'"
proof -
  from listNodeLevel_cases [of "node_name node"] show ?thesis
  proof
    assume "listNodeLevel (node_name node) = None"
    with e inv show ?thesis by (simp add: enter_def)
  next
    assume "\<exists>l. listNodeLevel (node_name node) = Some (Inr l)"
    then obtain l where lv: "listNodeLevel (node_name node) = Some (Inr l)" by blast
    show ?thesis
    proof (cases "1 \<le> l")
      case True
      from enter_step [OF inv lv True] e show ?thesis by auto
    next
      case False
      then have "l \<le> 0" by simp
      from enter_level_TypeError [OF inv lv this] e show ?thesis by simp
    qed
  qed
qed

lemma iterate_builderInv:
  "builderInv st \<Longrightarrow> iterate nodes st = Some (Inr st') \<Longrightarrow> builderInv st'"
proof (induction nodes arbitrary: st)
  case Nil
  then show ?case by simp
next
  case (Cons node nodes)
  from Cons.prems(2) obtain st1 where e: "enter node st = Some (Inr st1)"
    and r: "iterate nodes st1 = Some (Inr st')"
    by (auto split: option.splits sum.splits)
  from Cons.IH [OF enter_inv [OF Cons.prems(1) e] r] show ?case .
qed

text \<open>On a store that the builder made, the guard of \<open>treeOf\<close> keeps every child.\<close>

lemma treeOf_built:
  assumes "builderInv st" and "i < length (tasks st)"
  shows "treeOf (tasks st) i =
     TimedTask (cell_level (tasks st ! i)) (cell_position (tasks st ! i))
       (cell_markPos (tasks st ! i)) (cell_parent (tasks st ! i)) (cell_duration (tasks st ! i))
       (map (treeOf (tasks st)) (cell_children (tasks st ! i)))"
proof -
  have "filter (\<lambda>c. i < c \<and> c < length (tasks st)) (cell_children (tasks st ! i))
          = cell_children (tasks st ! i)"
    using builderInvD(5) [OF assms] by (intro filter_True) blast
  then show ?thesis
    by (subst treeOf.simps) simp
qed

lemma cell_level_update:
  "cell_level ((xs[i := (xs ! i)\<lparr>cell_children := ch\<rparr>]) ! k) = cell_level (xs ! k)"
  by (cases "i < length xs"; cases "i = k"; simp add: list_update_beyond)

lemma attachTask_last: "cell_level (last (tasks (attachTask p c st))) = cell_level c"
  by (cases p) (simp_all add: attachTask_def last_conv_nth cell_level_update)

text \<open>
  Claim C10. The level of a list item is read from its type name by \<open>^list-(\\d)\<close>: a name
  yields a level exactly when it starts with \<open>list-\<close> and a digit, and the level is that
  one digit, whatever follows it (\<open>list-12\<close> has level 1). A node with any other name
  creates no task and leaves the build state as it is; a node with such a name, when
  \<open>enter\<close> returns, has created exactly one task, of that level.
\<close>

theorem listNodeLevel_first_digit:
  "listNodeLevel name =
     (if isListItemName name then Some (Inr (digitValue (name ! 5))) else None)
   \<and> listNodeLevel (ascii ''list-12'') = Some (Inr 1)
   \<and> (listNodeLevel (node_name node) = None \<longrightarrow> enter node st = Some (Inr st))
   \<and> (\<forall>l st'. listNodeLevel (node_name node) = Some (Inr l) \<and> enter node st = Some (Inr st')
         \<longrightarrow> length (tasks st') = Suc (length (tasks st)) \<and> cell_level (last (tasks st')) = l)"
proof (intro conjI allI impI)
  show "listNodeLevel name =
     (if isListItemName name then Some (Inr (digitValue (name ! 5))) else None)"
    by (rule listNodeLevel_eq)
  show "listNodeLevel (ascii ''list-12'') = Some (Inr 1)"
    by (simp add: listNodeLevel_eq isListItemName_def ascii_def isDigit_def digitValue_def)
  show "enter node st = Some (Inr st)" if "listNodeLevel (node_name node) = None"
    using that by (simp add: enter_def)
next
  fix l st'
  assume h: "listNodeLevel (node_name node) = Some (Inr l) \<and> enter node st = Some (Inr st')"
  then obtain p c where "st' = attachTask p c st" and "cell_level c = l"
    by (auto simp: enter_def split: sum.splits option.splits)
  then show "length (tasks st') = Suc (length (tasks st))" and "cell_level (last (tasks st')) = l"
    by (simp_all add: attachTask_length attachTask_last)
qed

theorem listNodeLevel_first_digit_witness:
  "listNodeLevel (ascii ''list-12'') = Some (Inr 1)
   \<and> (\<exists>st'. enter \<lparr>node_name = ascii ''list-12'', node_from = 0, node_to = 1, bulletValue = ascii ''x''\<rparr>
                 rootTask = Some (Inr st')
         \<and> length (tasks st') = 1 \<and> cell_level (last (tasks st')) = 1)
   \<and> listNodeLevel (ascii ''list-x'') = None
   \<and> enter \<lparr>node_name = ascii ''list-x'', node_from = 0, node_to = 1, bulletValue = ascii ''x''\<rparr>
        rootTask = Some (Inr rootTask)"
proof -
  let ?n1 = "\<lparr>node_name = ascii ''list-12'', node_from = 0, node_to = 1, bulletValue = ascii ''x''\<rparr>"
  let ?n2 = "\<lparr>node_name = ascii ''list-x'', node_from = 0, node_to = 1, bulletValue = ascii ''x''\<rparr>"
  note t1 = listNodeLevel_first_digit [of "ascii ''list-12''" ?n1 rootTask]
  note t2 = listNodeLevel_first_digit [of "ascii ''list-x''" ?n2 rootTask]
  from t1 have "listNodeLevel (ascii ''list-12'') = Some (Inr 1)"
    by blast
  then have l1: "listNodeLevel (node_name ?n1) = Some (Inr 1)"
    by simp
  have l2: "listNodeLevel (node_name ?n2) = None"
    using t2 by (simp add: isListItemName_def ascii_def isDigit_def)
  from enter_step [OF builderInv_rootTask l1] obtain st' where
    e: "enter ?n1 rootTask = Some (Inr st')" by auto
  with t1 l1 have "length (tasks st') = Suc (length (tasks rootTask)) \<and> cell_level (last (tasks st')) = 1"
    by blast
  then have a: "length (tasks st') = 1 \<and> cell_level (last (tasks st')) = 1"
    by (simp add: rootTask_def)
  from t2 l2 have b: "enter ?n2 rootTask = Some (Inr rootTask)" by blast
  from l1 l2 e a b show ?thesis by auto
qed

text \<open>
  Claim C3. For a stream of syntax nodes whose list items all have a level of at least 1,
  the build returns (every pop loop ends and stops at the root at the latest), the task
  objects are the list items of the stream in order, and every task \<open>k\<close> has a parent with
  a strictly smaller level that precedes it, with no task of a level below that of \<open>k\<close>
  between the parent and \<open>k\<close>: the parent is the nearest preceding task, or else the root,
  of strictly smaller level. Task \<open>k\<close> is in the children list of that parent.
\<close>

theorem iterate_nearest_parent:
  assumes "\<forall>node \<in> set nodes. \<forall>l. listNodeLevel (node_name node) = Some (Inr l) \<longrightarrow> 1 \<le> l"
  shows "\<exists>st. iterate nodes rootTask = Some (Inr st)
           \<and> map cell_level (tasks st) = streamLevels nodes
           \<and> (\<forall>k < length (tasks st). nearestParent st k)"
proof -
  from iterate_inv [OF builderInv_rootTask assms] obtain st where
    "iterate nodes rootTask = Some (Inr st)" "builderInv st"
    "map cell_level (tasks st) = map cell_level (tasks rootTask) @ streamLevels nodes"
    by blast
  then show ?thesis
    by (auto simp: builderInvD(1) rootTask_def)
qed

lemma bulletNodeDuration_line:
  assumes "isLine s"
  shows "bulletNodeDuration s =
           (case scanTokens s of t1 # t2 # _ \<Rightarrow> Inr (diffDuration t1 t2) | _ \<Rightarrow> Inr None)"
proof (cases "\<exists>t1 t2 ts. scanTokens s = t1 # t2 # ts")
  case True
  then obtain t1 t2 ts where toks: "scanTokens s = t1 # t2 # ts" by blast
  with regexExec_timeRangeRx [OF assms] obtain whole where
    m: "regexExec timeRangeRx s = Some \<lparr>index = 0, elems = [Some whole, Some t1, Some t2]\<rparr>"
    by auto
  have "isClockTime t1" "isClockTime t2"
    by (rule scanTokens_clock [of _ s], simp add: toks)+
  then obtain d where d: "diffDuration t1 t2 = Some d"
    using diffDuration_clock by blast
  from m d toks show ?thesis
    by (simp add: bulletNodeDuration_def)
next
  case False
  then have few: "length (scanTokens s) < 2"
    by (cases "scanTokens s"; simp) (rename_tac t ts, case_tac ts; simp)
  with regexExec_timeRangeRx [OF assms] have "regexExec timeRangeRx s = None"
    by (auto split: list.splits)
  with few show ?thesis
    by (auto simp: bulletNodeDuration_def split: list.splits)
qed

lemma enter_line:
  assumes "isListItemName (node_name node)" and "isLine (bulletValue node)"
  shows "enter node st =
     (case scanTokens (bulletValue node) of
        t1 # t2 # _ \<Rightarrow>
          (case diffDuration t1 t2 of None \<Rightarrow> None | Some d \<Rightarrow>
          (case popParent (tasks st) (digitValue (node_name node ! 5)) (currentParent st) of
             None \<Rightarrow> None
           | Some None \<Rightarrow> Some (Inl TypeError)
           | Some (Some p) \<Rightarrow>
               Some (Inr (attachTask p
                 \<lparr>cell_level = digitValue (node_name node ! 5),
                  cell_position = node_to node,
                  cell_markPos = markPosOf (node_from node) (bulletValue node),
                  cell_parent = Some p,
                  cell_duration = Some d,
                  cell_children = []\<rparr> st))))
      | _ \<Rightarrow>
          (case popParent (tasks st) (digitValue (node_name node ! 5)) (currentParent st) of
             None \<Rightarrow> None
           | Some None \<Rightarrow> Some (Inl TypeError)
           | Some (Some p) \<Rightarrow>
               Some (Inr (attachTask p
                 \<lparr>cell_level = digitValue (node_name node ! 5),
                  cell_position = node_to node,
                  cell_markPos = markPosOf (node_from node) (bulletValue node),
                  cell_parent = Some p,
                  cell_duration = None,
                  cell_children = []\<rparr> st))))"
proof -
  have lv: "listNodeLevel (node_name node) = Some (Inr (digitValue (node_name node ! 5)))"
    using assms(1) by (simp add: listNodeLevel_eq)
  show ?thesis
  proof (cases "\<exists>t1 t2 ts. scanTokens (bulletValue node) = t1 # t2 # ts")
    case True
    then obtain t1 t2 ts where toks: "scanTokens (bulletValue node) = t1 # t2 # ts" by blast
    have "isClockTime t1" "isClockTime t2"
      by (rule scanTokens_clock [of _ "bulletValue node"], simp add: toks)+
    then obtain d where d: "diffDuration t1 t2 = Some d"
      using diffDuration_clock by blast
    show ?thesis
      by (simp add: enter_def lv bulletNodeDuration_line [OF assms(2)] toks d)
  next
    case False
    then have few: "length (scanTokens (bulletValue node)) < 2"
      by (cases "scanTokens (bulletValue node)"; simp) (rename_tac t ts, case_tac ts; simp)
    then show ?thesis
      by (auto simp: enter_def lv bulletNodeDuration_line [OF assms(2)] split: list.splits)
  qed
qed

lemma exampleStream_eval:
  "\<exists>st. iterate exampleStream rootTask = Some (Inr st)
     \<and> map cell_parent (tasks st) = [Some RootTask, Some (Task 0), Some (Task 0), Some RootTask]
     \<and> rootChildren st = [0, 3] \<and> map cell_children (tasks st) = [[1, 2], [], [], []]"
proof -
  have n: "isListItemName (ascii ''list-1'')" "isListItemName (ascii ''list-2'')"
    "isListItemName (ascii ''list-3'')" "\<not> isListItemName (ascii ''em'')"
    by (simp_all add: isListItemName_def ascii_def isDigit_def)
  have l: "isLine (ascii ''a'')" "isLine (ascii ''b'')" "isLine (ascii ''c'')" "isLine (ascii ''d'')"
    by (simp_all add: ascii_def isLineTerminator_def)
  have s: "scanTokens (ascii ''a'') = []" "scanTokens (ascii ''b'') = []"
    "scanTokens (ascii ''c'') = []" "scanTokens (ascii ''d'') = []"
    by (simp_all add: ascii_def isClockTime_def)
  have d: "ascii ''list-1'' ! 5 = 49" "ascii ''list-2'' ! 5 = 50" "ascii ''list-3'' ! 5 = 51"
    by (simp_all add: ascii_def)
  have e: "enter \<lparr>node_name = ascii ''em'', node_from = 2, node_to = 3, bulletValue = ascii ''b''\<rparr> = (\<lambda>st. Some (Inr st))"
    by (rule ext) (simp add: enter_def listNodeLevel_eq n)
  show ?thesis
    unfolding exampleStream_def
    by (simp add: enter_line n l s d e digitValue_def rootTask_def popParent_Some popParent_None
        attachTask_def)
qed

theorem iterate_nearest_parent_witness:
  "\<exists>st. iterate exampleStream rootTask = Some (Inr st)
     \<and> map cell_level (tasks st) = [1, 3, 2, 1]
     \<and> (\<forall>k < length (tasks st). nearestParent st k)
     \<and> map cell_parent (tasks st) = [Some RootTask, Some (Task 0), Some (Task 0), Some RootTask]"
proof -
  have h: "\<forall>node \<in> set exampleStream. \<forall>l. listNodeLevel (node_name node) = Some (Inr l) \<longrightarrow> 1 \<le> l"
    by (simp add: exampleStream_def listNodeLevel_eq isListItemName_def ascii_def isDigit_def
        digitValue_def)
  have lv: "streamLevels exampleStream = [1, 3, 2, 1]"
    by (simp add: exampleStream_def streamLevels_def listNodeLevel_eq isListItemName_def ascii_def
        isDigit_def digitValue_def)
  from iterate_nearest_parent [OF h] obtain st where
    st: "iterate exampleStream rootTask = Some (Inr st)"
    "map cell_level (tasks st) = streamLevels exampleStream"
    "\<forall>k < length (tasks st). nearestParent st k"
    by blast
  from exampleStream_eval st(1) have
    "map cell_parent (tasks st) = [Some RootTask, Some (Task 0), Some (Task 0), Some RootTask]"
    by auto
  with st lv show ?thesis by auto
qed

lemma forTasks_Cons:
  "forTasks acc (t # rest) =
     (fst (forTasks (sumDurations acc (the (duration (fillTask t)))) rest),
      fillTask t # snd (forTasks (sumDurations acc (the (duration (fillTask t)))) rest))"
  by (cases t) (simp add: fillTask_def split: option.splits prod.splits)

lemma forTasks_snd: "snd (forTasks acc ts) = map fillTask ts"
  by (induction ts arbitrary: acc) (simp_all add: forTasks_Cons del: forTasks.simps(2))

lemma forTasks_fst:
  "fst (forTasks acc ts) = foldl sumDurations acc (map (\<lambda>t. the (duration (fillTask t))) ts)"
  by (induction ts arbitrary: acc) (simp_all add: forTasks_Cons del: forTasks.simps(2))

lemma setTasksDuration_snd: "snd (setTasksDuration ts) = map fillTask ts"
  by (simp add: forTasks_snd)

lemma setTasksDuration_fst:
  "fst (setTasksDuration ts) =
     foldl sumDurations \<lparr>hours = 0, minutes = 0\<rparr> (map (\<lambda>t. the (duration (fillTask t))) ts)"
  by (simp add: forTasks_fst)

lemma fillTask_Some: "fillTask (TimedTask lv po mp pa (Some d) ch) = TimedTask lv po mp pa (Some d) ch"
  by (simp add: fillTask_def)

lemma fillTask_None:
  "fillTask (TimedTask lv po mp pa None ch) =
     TimedTask lv po mp pa (Some (fst (setTasksDuration ch))) (map fillTask ch)"
  by (simp add: fillTask_def setTasksDuration_snd del: setTasksDuration.simps)

lemma eraseDurations_fillTask: "eraseDurations (fillTask t) = eraseDurations t"
proof (induction t)
  case (TimedTask lv po mp pa du ch)
  show ?case
  proof (cases du)
    case None
    with TimedTask show ?thesis
      by (simp add: fillTask_None del: setTasksDuration.simps)
  next
    case (Some d)
    then show ?thesis by (simp add: fillTask_Some)
  qed
qed

lemma list_all2_concat_map:
  "(\<And>x. x \<in> set xs \<Longrightarrow> list_all2 R (f x) (g x)) \<Longrightarrow>
   list_all2 R (concat (map f xs)) (concat (map g xs))"
  by (induction xs) (auto intro: list_all2_appendI)

lemma keepsDefined_fillTask:
  "list_all2 keepsDefined (preorderTask t) (preorderTask (fillTask t))"
proof (induction t)
  case (TimedTask lv po mp pa du ch)
  show ?case
  proof (cases du)
    case None
    have "list_all2 keepsDefined (concat (map preorderTask ch))
            (concat (map (\<lambda>c. preorderTask (fillTask c)) ch))"
      using TimedTask by (intro list_all2_concat_map) simp
    moreover have "keepsDefined (TimedTask lv po mp pa None ch) t'" for t'
      by (simp add: keepsDefined_def)
    ultimately show ?thesis
      using None by (simp add: fillTask_None comp_def del: setTasksDuration.simps)
  next
    case (Some d)
    have "list_all2 keepsDefined xs xs" for xs
      by (rule list_all2_refl) (simp add: keepsDefined_def)
    moreover have "keepsDefined t' t'" for t'
      by (simp add: keepsDefined_def)
    ultimately show ?thesis
      using Some by (simp add: fillTask_Some)
  qed
qed

text \<open>
  Claim C9. The aggregation changes nothing but durations, and only undefined ones: without
  the durations the forest after it is the forest before it (levels, positions, mark
  ranges, parent references and the shape of the children lists), and task by task, in
  document order, a duration that was defined is the same afterwards.
\<close>

theorem setTasksDuration_frame:
  "map eraseDurations (snd (setTasksDuration ts)) = map eraseDurations ts
   \<and> list_all2 keepsDefined (preorder ts) (preorder (snd (setTasksDuration ts)))"
proof -
  have "list_all2 keepsDefined (concat (map preorderTask ts))
          (concat (map (\<lambda>t. preorderTask (fillTask t)) ts))"
    by (intro list_all2_concat_map keepsDefined_fillTask)
  then show ?thesis
    unfolding setTasksDuration_snd preorder_def
    by (simp add: eraseDurations_fillTask comp_def)
qed

theorem setTasksDuration_frame_witness:
  "map eraseDurations (snd (setTasksDuration
       [TimedTask 1 7 None (Some RootTask) None
          [TimedTask 2 21 None (Some (Task 0)) (Some \<lparr>hours = 0, minutes = 30\<rparr>) []]]))
     = [TimedTask 1 7 None (Some RootTask) None [TimedTask 2 21 None (Some (Task 0)) None []]]
   \<and> map duration (preorder (snd (setTasksDuration
       [TimedTask 1 7 None (Some RootTask) None
          [TimedTask 2 21 None (Some (Task 0)) (Some \<lparr>hours = 0, minutes = 30\<rparr>) []]])))
     = [Some \<lparr>hours = 0, minutes = 30\<rparr>, Some \<lparr>hours = 0, minutes = 30\<rparr>]"
proof -
  let ?F = "[TimedTask 1 7 None (Some RootTask) None
          [TimedTask 2 21 None (Some (Task 0)) (Some \<lparr>hours = 0, minutes = 30\<rparr>) []]]"
  from setTasksDuration_frame [of ?F]
  have "map eraseDurations (snd (setTasksDuration ?F)) = map eraseDurations ?F"
    by (rule conjunct1)
  moreover have "map duration (preorder (snd (setTasksDuration ?F)))
     = [Some \<lparr>hours = 0, minutes = 30\<rparr>, Some \<lparr>hours = 0, minutes = 30\<rparr>]"
    by (simp add: preorder_def sumDurations_def jsRem_def)
  ultimately show ?thesis by simp
qed

lemma validDuration_zero: "validDuration \<lparr>hours = 0, minutes = 0\<rparr>"
  by (simp add: validDuration_def)

lemma totalMinutes_nonneg: "validDuration d \<Longrightarrow> 0 \<le> totalMinutes d"
  by (simp add: validDuration_def totalMinutes_def)

lemma normalized_totalMinutes: "validDuration d \<Longrightarrow> normalized (totalMinutes d) = d"
  by (cases d) (simp add: validDuration_def totalMinutes_def normalized_def)

lemma validDuration_normalized: "0 \<le> m \<Longrightarrow> validDuration (normalized m)"
  by (simp add: validDuration_def normalized_def pos_imp_zdiv_nonneg_iff)

lemma totalMinutes_normalized: "totalMinutes (normalized m) = m"
  by (simp add: totalMinutes_def normalized_def)

lemma sumDurations_normalized:
  "0 \<le> totalMinutes a + totalMinutes b \<Longrightarrow>
   sumDurations a b = normalized (totalMinutes a + totalMinutes b)"
  by (simp add: sumDurations_def normalized_def totalMinutes_def Let_def jsRem_nonneg
      algebra_simps)

lemma foldl_sumDurations:
  assumes "validDuration acc" and "\<forall>d \<in> set ds. validDuration d"
  shows "foldl sumDurations acc ds = normalized (totalMinutes acc + sum_list (map totalMinutes ds))"
  using assms
proof (induction ds arbitrary: acc)
  case Nil
  then show ?case by (simp add: normalized_totalMinutes)
next
  case (Cons d ds)
  from Cons.prems have nn: "0 \<le> totalMinutes acc + totalMinutes d"
    by (simp add: totalMinutes_nonneg)
  then have s: "sumDurations acc d = normalized (totalMinutes acc + totalMinutes d)"
    by (rule sumDurations_normalized)
  from nn have "validDuration (sumDurations acc d)"
    unfolding s by (rule validDuration_normalized)
  with Cons.IH [of "sumDurations acc d"] Cons.prems show ?case
    by (simp add: s totalMinutes_normalized add.assoc)
qed

lemma validDuration_resolved: "validTree t \<Longrightarrow> validDuration (resolved t)"
proof (induction t)
  case (TimedTask lv po mp pa du ch)
  show ?case
  proof (cases du)
    case None
    have "0 \<le> sum_list (map (\<lambda>c. totalMinutes (resolved c)) ch)"
      using TimedTask by (intro sum_list_nonneg) (auto simp: list_all_iff totalMinutes_nonneg)
    with None show ?thesis by (simp add: validDuration_normalized)
  next
    case (Some d)
    with TimedTask.prems show ?thesis by simp
  qed
qed

lemma duration_aggregated: "duration (aggregated t) = Some (resolved t)"
  by (cases t) (simp split: option.splits)

lemma fillTask_aggregated: "validTree t \<Longrightarrow> fillTask t = aggregated t"
proof (induction t)
  case (TimedTask lv po mp pa du ch)
  show ?case
  proof (cases du)
    case (Some d)
    then show ?thesis by (simp add: fillTask_Some)
  next
    case None
    from TimedTask.prems have vc: "\<forall>c \<in> set ch. validTree c"
      by (simp add: list_all_iff)
    with TimedTask.IH have eq: "\<forall>c \<in> set ch. fillTask c = aggregated c"
      by simp
    then have ds: "map (\<lambda>t. the (duration (fillTask t))) ch = map resolved ch"
      by (simp add: duration_aggregated)
    have "\<forall>d \<in> set (map resolved ch). validDuration d"
      using vc by (simp add: validDuration_resolved)
    from foldl_sumDurations [OF validDuration_zero this]
    have "fst (setTasksDuration ch) =
            normalized (sum_list (map (\<lambda>c. totalMinutes (resolved c)) ch))"
      unfolding setTasksDuration_fst ds
      by (simp add: totalMinutes_def comp_def)
    with eq None show ?thesis
      by (simp add: fillTask_None del: setTasksDuration.simps)
  qed
qed

lemma setTasksDuration_aggregated:
  assumes "list_all validTree ts"
  shows "setTasksDuration ts =
           (normalized (sum_list (map (\<lambda>t. totalMinutes (resolved t)) ts)), map aggregated ts)"
proof -
  from assms have eq: "\<forall>t \<in> set ts. fillTask t = aggregated t"
    by (simp add: list_all_iff fillTask_aggregated)
  then have ds: "map (\<lambda>t. the (duration (fillTask t))) ts = map resolved ts"
    by (simp add: duration_aggregated)
  have "\<forall>d \<in> set (map resolved ts). validDuration d"
    using assms by (simp add: validDuration_resolved list_all_iff)
  from foldl_sumDurations [OF validDuration_zero this]
  have f: "fst (setTasksDuration ts) =
            normalized (sum_list (map (\<lambda>t. totalMinutes (resolved t)) ts))"
    unfolding setTasksDuration_fst ds
    by (simp add: totalMinutes_def comp_def)
  from eq have "snd (setTasksDuration ts) = map aggregated ts"
    by (simp add: setTasksDuration_snd del: setTasksDuration.simps)
  with f show ?thesis
    by (simp add: prod_eq_iff del: setTasksDuration.simps)
qed

lemma validTree_treeOf:
  "\<forall>t \<in> set ts. \<forall>d. cell_duration t = Some d \<longrightarrow> validDuration d \<Longrightarrow>
   i < length ts \<Longrightarrow> validTree (treeOf ts i)"
proof (induction ts i rule: treeOf.induct)
  case (1 ts i)
  have kids: "list_all validTree
     (map (treeOf ts) (filter (\<lambda>c. i < c \<and> c < length ts) (cell_children (ts ! i))))"
    using 1 by (auto simp: list_all_iff)
  from 1(3) have "ts ! i \<in> set ts" by simp
  with 1(2) have "case cell_duration (ts ! i) of Some d \<Rightarrow> validDuration d | None \<Rightarrow> True"
    by (auto split: option.splits)
  with kids show ?case
    by (subst treeOf.simps) simp
qed

lemma validTree_forestOf: "builderInv st \<Longrightarrow> list_all validTree (forestOf st)"
proof -
  assume inv: "builderInv st"
  have v: "\<forall>t \<in> set (tasks st). \<forall>d. cell_duration t = Some d \<longrightarrow> validDuration d"
    using builderInvD(6) [OF inv] by blast
  have "validTree (treeOf (tasks st) r)" if "r \<in> set (rootChildren st)" for r
    using v builderInvD(4) [OF inv that] by (rule validTree_treeOf)
  then show ?thesis
    by (simp add: forestOf_def list_all_iff)
qed

lemma list_names:
  "isListItemName (ascii ''list-1'')" "isListItemName (ascii ''list-2'')"
  "ascii ''list-1'' ! 5 = 49" "ascii ''list-2'' ! 5 = 50"
  by (simp_all add: isListItemName_def ascii_def isDigit_def)

lemma scenario_lines:
  "isLine (ascii ''09:00-10:00 A'')" "isLine (ascii ''09:00-09:30 B'')"
  "isLine (ascii ''child no time'')"
  "scanTokens (ascii ''09:00-10:00 A'') = [ascii ''09:00'', ascii ''10:00'']"
  "scanTokens (ascii ''09:00-09:30 B'') = [ascii ''09:00'', ascii ''09:30'']"
  "scanTokens (ascii ''child no time'') = []"
  by (simp_all add: ascii_def isLineTerminator_def isClockTime_def isDigit_def)

lemma example_diffs:
  "diffDuration (ascii ''09:00'') (ascii ''10:00'') = Some \<lparr>hours = 1, minutes = 0\<rparr>"
  "diffDuration (ascii ''09:00'') (ascii ''09:30'') = Some \<lparr>hours = 0, minutes = 30\<rparr>"
  "diffDuration (ascii ''09:00'') (ascii ''12:00'') = Some \<lparr>hours = 3, minutes = 0\<rparr>"
  "diffDuration (ascii ''10:00'') (ascii ''11:00'') = Some \<lparr>hours = 1, minutes = 0\<rparr>"
  by (simp_all add: diffDuration_def parseToMinutes_def ascii_def jsNumber_def isDigit_def
      decimalValue_def digitValue_def jsRem_def)

lemma scenario_built:
  "iterate scenario rootTask = Some (Inr
     \<lparr>rootChildren = [0],
      tasks =
        [\<lparr>cell_level = 1, cell_position = 13,
          cell_markPos = markPosOf 0 (ascii ''09:00-10:00 A''),
          cell_parent = Some RootTask, cell_duration = Some \<lparr>hours = 1, minutes = 0\<rparr>,
          cell_children = [1, 2]\<rparr>,
         \<lparr>cell_level = 2, cell_position = 27,
          cell_markPos = markPosOf 14 (ascii ''09:00-09:30 B''),
          cell_parent = Some (Task 0), cell_duration = Some \<lparr>hours = 0, minutes = 30\<rparr>,
          cell_children = []\<rparr>,
         \<lparr>cell_level = 2, cell_position = 41,
          cell_markPos = markPosOf 28 (ascii ''child no time''),
          cell_parent = Some (Task 0), cell_duration = None, cell_children = []\<rparr>],
      currentParent = Some (Task 2)\<rparr>)"
  unfolding scenario_def
  by (simp add: enter_line list_names scenario_lines example_diffs digitValue_def rootTask_def
      popParent_Some popParent_None attachTask_def)

text \<open>
  What the aggregation computes on a forest of the builder: it returns the normalized sum
  of the minutes the top-level tasks resolve to; a task without a range gets the
  normalized sum of the minutes its children resolve to (\<open>{0, 0}\<close> without children) and
  its children are treated in the same way; a task with a parsed range keeps the range,
  and the loop does not reach the tasks below it.
\<close>

lemma setTasksDuration_built:
  assumes "iterate nodes rootTask = Some (Inr st)"
  shows "setTasksDuration (forestOf st) =
           (normalized (sum_list (map (\<lambda>t. totalMinutes (resolved t)) (forestOf st))),
            map aggregated (forestOf st))"
  by (intro setTasksDuration_aggregated validTree_forestOf
        iterate_builderInv [OF builderInv_rootTask assms])

lemma displayDurations_Cons:
  "displayDurations b (TimedTask lv po mp pa du ch # rest) =
     displayDurations (displayDurations (b @ ownRanges (TimedTask lv po mp pa du ch)) ch) rest"
  by (simp add: ownRanges_def Let_def split: option.splits)

lemma displayDurations_all:
  assumes "\<And>c b' rest. c \<in> set cs \<Longrightarrow>
             displayDurations b' (c # rest)
               = displayDurations (b' @ concat (map ownRanges (preorderTask c))) rest"
  shows "displayDurations b cs = b @ concat (map ownRanges (preorder cs))"
  using assms
proof (induction cs arbitrary: b)
  case Nil
  show ?case by (simp add: preorder_def)
next
  case (Cons c cs)
  have "displayDurations b (c # cs) =
          displayDurations (b @ concat (map ownRanges (preorderTask c))) cs"
    by (rule Cons.prems) simp
  also have "\<dots> = (b @ concat (map ownRanges (preorderTask c))) @ concat (map ownRanges (preorder cs))"
    by (rule Cons.IH) (simp add: Cons.prems)
  finally show ?case by (simp add: preorder_def)
qed

lemma displayDurations_task:
  "displayDurations b (t # rest) =
     displayDurations (b @ concat (map ownRanges (preorderTask t))) rest"
proof (induction t arbitrary: b rest)
  case (TimedTask lv po mp pa du ch)
  have "displayDurations (b @ ownRanges (TimedTask lv po mp pa du ch)) ch =
          (b @ ownRanges (TimedTask lv po mp pa du ch)) @ concat (map ownRanges (preorder ch))"
    by (rule displayDurations_all) (rule TimedTask.IH)
  then show ?case
    by (simp add: displayDurations_Cons preorder_def del: displayDurations.simps)
qed

lemma displayDurations_preorder:
  "displayDurations b ts = b @ concat (map ownRanges (preorder ts))"
  by (rule displayDurations_all) (rule displayDurations_task)

lemma widgetLabels_append: "widgetLabels (xs @ ys) = widgetLabels xs @ widgetLabels ys"
  by (induction xs) (simp_all split: Decoration.splits)

lemma widgetLabels_concat:
  "widgetLabels (concat xss) = concat (map widgetLabels xss)"
  by (induction xss) (simp_all add: widgetLabels_append)

lemma widgetLabels_ownRanges: "widgetLabels (ownRanges t) = taskLabel t"
  by (simp add: ownRanges_def taskLabel_def toDOM_def widgetLabels_append
      split: option.splits)

text \<open>
  Claim C5. The inline labels that the display emits are, in document order, exactly the
  labels of the tasks: a task has a label if and only if its duration is present and not
  \<open>{0, 0}\<close>; the label is anchored at the position of the task and its text is the prefix
  (space, em dash, space, stopwatch, space) followed by the formatted duration.
\<close>

theorem displayDurations_labels:
  "widgetLabels (displayDurations [] ts) = concat (map taskLabel (preorder ts))"
  by (simp add: displayDurations_preorder widgetLabels_concat comp_def widgetLabels_ownRanges)

theorem displayDurations_labels_witness:
  "widgetLabels (displayDurations []
     [TimedTask 1 13 (Some \<lparr>from_pos = 0, to_pos = 11\<rparr>) (Some RootTask)
        (Some \<lparr>hours = 1, minutes = 0\<rparr>)
        [TimedTask 2 27 (Some \<lparr>from_pos = 14, to_pos = 25\<rparr>) (Some (Task 0))
           (Some \<lparr>hours = 0, minutes = 30\<rparr>) [],
         TimedTask 2 41 None (Some (Task 0)) None [],
         TimedTask 2 50 None (Some (Task 0)) (Some \<lparr>hours = 0, minutes = 0\<rparr>) []]])
   = [(13, 13, [32, 8212, 32, 9201, 65039, 32] @ ascii ''1 h 0 mins''),
      (27, 27, [32, 8212, 32, 9201, 65039, 32] @ ascii ''30 mins'')]"
  by (simp add: displayDurations_labels preorder_def taskLabel_def formatDuration_def
      numberToString_def digitsOf.simps ascii_def del: displayDurations.simps)

lemma sorted_concat_map:
  assumes "\<And>x. x \<in> set xs \<Longrightarrow> set (f x) \<subseteq> set (g x)"
    and "\<And>x. x \<in> set xs \<Longrightarrow> sorted (g x) \<Longrightarrow> sorted (f x)"
  shows "sorted (concat (map g xs)) \<Longrightarrow> sorted (concat (map f xs))"
  using assms
proof (induction xs)
  case Nil
  show ?case by simp
next
  case (Cons x xs)
  from Cons.prems(1) have gx: "sorted (g x)" and grest: "sorted (concat (map g xs))"
    and cross: "\<forall>a \<in> set (g x). \<forall>b \<in> set (concat (map g xs)). a \<le> b"
    by (simp_all add: sorted_append)
  have fx: "sorted (f x)" using Cons.prems(3) gx by simp
  have frest: "sorted (concat (map f xs))"
    using grest Cons.prems(2,3) by (intro Cons.IH) simp_all
  have sub1: "set (f x) \<subseteq> set (g x)" using Cons.prems(2) by simp
  have sub2: "set (concat (map f xs)) \<subseteq> set (concat (map g xs))"
    using Cons.prems(2) by fastforce
  from cross sub1 sub2 have "\<forall>a \<in> set (f x). \<forall>b \<in> set (concat (map f xs)). a \<le> b"
    by blast
  with fx frest show ?case by (simp add: sorted_append)
qed

lemma starts_subset: "set (map range_from (ownRanges t)) \<subseteq> set (offsets t)"
  by (auto simp: ownRanges_def offsets_def split: option.splits if_splits)

lemma starts_sorted: "sorted (offsets t) \<Longrightarrow> sorted (map range_from (ownRanges t))"
  by (auto simp: ownRanges_def offsets_def split: option.splits)

text \<open>
  Claim C6. For a forest in document order, the ranges that the display emits have start
  positions that never decrease.
\<close>

theorem displayDurations_sorted:
  assumes "inDocumentOrder ts"
  shows "sorted (map range_from (displayDurations [] ts))"
proof -
  have "map range_from (displayDurations [] ts) =
          concat (map (\<lambda>t. map range_from (ownRanges t)) (preorder ts))"
    by (simp add: displayDurations_preorder map_concat comp_def)
  moreover have "sorted (concat (map (\<lambda>t. map range_from (ownRanges t)) (preorder ts)))"
    using assms unfolding inDocumentOrder_def
    by (rule sorted_concat_map [rotated 2]) (rule starts_subset, rule starts_sorted)
  ultimately show ?thesis by simp
qed

theorem displayDurations_sorted_witness:
  "inDocumentOrder
     [TimedTask 1 7 None (Some RootTask) (Some \<lparr>hours = 1, minutes = 20\<rparr>)
        [TimedTask 2 21 (Some \<lparr>from_pos = 8, to_pos = 19\<rparr>) (Some (Task 0))
           (Some \<lparr>hours = 0, minutes = 30\<rparr>) [],
         TimedTask 2 35 (Some \<lparr>from_pos = 22, to_pos = 33\<rparr>) (Some (Task 0))
           (Some \<lparr>hours = 0, minutes = 50\<rparr>) []]]
   \<and> map range_from (displayDurations []
     [TimedTask 1 7 None (Some RootTask) (Some \<lparr>hours = 1, minutes = 20\<rparr>)
        [TimedTask 2 21 (Some \<lparr>from_pos = 8, to_pos = 19\<rparr>) (Some (Task 0))
           (Some \<lparr>hours = 0, minutes = 30\<rparr>) [],
         TimedTask 2 35 (Some \<lparr>from_pos = 22, to_pos = 33\<rparr>) (Some (Task 0))
           (Some \<lparr>hours = 0, minutes = 50\<rparr>) []]]) = [7, 8, 21, 22, 35]
   \<and> sorted [7, 8, 21, 22, 35 :: int]"
proof -
  let ?F = "[TimedTask 1 7 None (Some RootTask) (Some \<lparr>hours = 1, minutes = 20\<rparr>)
        [TimedTask 2 21 (Some \<lparr>from_pos = 8, to_pos = 19\<rparr>) (Some (Task 0))
           (Some \<lparr>hours = 0, minutes = 30\<rparr>) [],
         TimedTask 2 35 (Some \<lparr>from_pos = 22, to_pos = 33\<rparr>) (Some (Task 0))
           (Some \<lparr>hours = 0, minutes = 50\<rparr>) []]]"
  have o: "inDocumentOrder ?F"
    by (simp add: inDocumentOrder_def preorder_def offsets_def)
  have e: "map range_from (displayDurations [] ?F) = [7, 8, 21, 22, 35]"
    by simp
  from displayDurations_sorted [OF o] o e show ?thesis by simp
qed

section \<open>The aggregator below a task with a range\<close>

lemma list_names3:
  "isListItemName (ascii ''list-3'')" "ascii ''list-3'' ! 5 = 51"
  by (simp_all add: isListItemName_def ascii_def isDigit_def)

lemma work_lines:
  "isLine (ascii ''09:00-12:00 Work'')" "isLine (ascii ''Work'')"
  "isLine (ascii ''Project X'')"
  "isLine (ascii ''09:00-10:00 a'')" "isLine (ascii ''10:00-11:00 b'')"
  "scanTokens (ascii ''09:00-12:00 Work'') = [ascii ''09:00'', ascii ''12:00'']"
  "scanTokens (ascii ''Work'') = []"
  "scanTokens (ascii ''Project X'') = []"
  "scanTokens (ascii ''09:00-10:00 a'') = [ascii ''09:00'', ascii ''10:00'']"
  "scanTokens (ascii ''10:00-11:00 b'') = [ascii ''10:00'', ascii ''11:00'']"
  by (simp_all add: ascii_def isLineTerminator_def isClockTime_def isDigit_def)

lemma workRanged_built:
  "iterate workRanged rootTask = Some (Inr
     \<lparr>rootChildren = [0],
      tasks =
        [\<lparr>cell_level = 1, cell_position = 16,
          cell_markPos = markPosOf 0 (ascii ''09:00-12:00 Work''),
          cell_parent = Some RootTask, cell_duration = Some \<lparr>hours = 3, minutes = 0\<rparr>,
          cell_children = [1]\<rparr>,
         \<lparr>cell_level = 2, cell_position = 26,
          cell_markPos = markPosOf 17 (ascii ''Project X''),
          cell_parent = Some (Task 0), cell_duration = None,
          cell_children = [2, 3]\<rparr>,
         \<lparr>cell_level = 3, cell_position = 40,
          cell_markPos = markPosOf 27 (ascii ''09:00-10:00 a''),
          cell_parent = Some (Task 1), cell_duration = Some \<lparr>hours = 1, minutes = 0\<rparr>,
          cell_children = []\<rparr>,
         \<lparr>cell_level = 3, cell_position = 54,
          cell_markPos = markPosOf 41 (ascii ''10:00-11:00 b''),
          cell_parent = Some (Task 1), cell_duration = Some \<lparr>hours = 1, minutes = 0\<rparr>,
          cell_children = []\<rparr>],
      currentParent = Some (Task 3)\<rparr>)"
  unfolding workRanged_def
  by (simp add: enter_line list_names list_names3 work_lines example_diffs
      digitValue_def rootTask_def popParent_Some popParent_None attachTask_def)

lemma workPlain_built:
  "iterate workPlain rootTask = Some (Inr
     \<lparr>rootChildren = [0],
      tasks =
        [\<lparr>cell_level = 1, cell_position = 4,
          cell_markPos = markPosOf 0 (ascii ''Work''),
          cell_parent = Some RootTask, cell_duration = None,
          cell_children = [1]\<rparr>,
         \<lparr>cell_level = 2, cell_position = 14,
          cell_markPos = markPosOf 5 (ascii ''Project X''),
          cell_parent = Some (Task 0), cell_duration = None,
          cell_children = [2, 3]\<rparr>,
         \<lparr>cell_level = 3, cell_position = 28,
          cell_markPos = markPosOf 15 (ascii ''09:00-10:00 a''),
          cell_parent = Some (Task 1), cell_duration = Some \<lparr>hours = 1, minutes = 0\<rparr>,
          cell_children = []\<rparr>,
         \<lparr>cell_level = 3, cell_position = 42,
          cell_markPos = markPosOf 29 (ascii ''10:00-11:00 b''),
          cell_parent = Some (Task 1), cell_duration = Some \<lparr>hours = 1, minutes = 0\<rparr>,
          cell_children = []\<rparr>],
      currentParent = Some (Task 3)\<rparr>)"
  unfolding workPlain_def
  by (simp add: enter_line list_names list_names3 work_lines example_diffs
      digitValue_def rootTask_def popParent_Some popParent_None attachTask_def)

lemma scenario_forest:
  "\<exists>st. iterate scenario rootTask = Some (Inr st) \<and> forestOf st =
     [TimedTask 1 13 (markPosOf 0 (ascii ''09:00-10:00 A'')) (Some RootTask)
        (Some \<lparr>hours = 1, minutes = 0\<rparr>)
        [TimedTask 2 27 (markPosOf 14 (ascii ''09:00-09:30 B'')) (Some (Task 0))
           (Some \<lparr>hours = 0, minutes = 30\<rparr>) [],
         TimedTask 2 41 (markPosOf 28 (ascii ''child no time'')) (Some (Task 0)) None []]]"
  by (simp add: scenario_built forestOf_def treeOf.simps)

lemma workRanged_forest:
  "\<exists>st. iterate workRanged rootTask = Some (Inr st) \<and> forestOf st =
     [TimedTask 1 16 (markPosOf 0 (ascii ''09:00-12:00 Work'')) (Some RootTask)
        (Some \<lparr>hours = 3, minutes = 0\<rparr>)
        [TimedTask 2 26 (markPosOf 17 (ascii ''Project X'')) (Some (Task 0)) None
           [TimedTask 3 40 (markPosOf 27 (ascii ''09:00-10:00 a'')) (Some (Task 1))
              (Some \<lparr>hours = 1, minutes = 0\<rparr>) [],
            TimedTask 3 54 (markPosOf 41 (ascii ''10:00-11:00 b'')) (Some (Task 1))
              (Some \<lparr>hours = 1, minutes = 0\<rparr>) []]]]"
  by (simp add: workRanged_built forestOf_def treeOf.simps)

lemma workPlain_forest:
  "\<exists>st. iterate workPlain rootTask = Some (Inr st) \<and> forestOf st =
     [TimedTask 1 4 (markPosOf 0 (ascii ''Work'')) (Some RootTask) None
        [TimedTask 2 14 (markPosOf 5 (ascii ''Project X'')) (Some (Task 0)) None
           [TimedTask 3 28 (markPosOf 15 (ascii ''09:00-10:00 a'')) (Some (Task 1))
              (Some \<lparr>hours = 1, minutes = 0\<rparr>) [],
            TimedTask 3 42 (markPosOf 29 (ascii ''10:00-11:00 b'')) (Some (Task 1))
              (Some \<lparr>hours = 1, minutes = 0\<rparr>) []]]]"
  by (simp add: workPlain_built forestOf_def treeOf.simps)

lemma widgetLabels_buildDecorations:
  "iterate nodes rootTask = Some (Inr st) \<Longrightarrow>
   \<exists>rs. buildDecorations nodes = Some (Inr rs)
     \<and> widgetLabels rs = concat (map taskLabel (preorder (snd (setTasksDuration (forestOf st)))))"
  by (simp add: buildDecorations_def displayDurations_preorder widgetLabels_concat comp_def
      widgetLabels_ownRanges del: setTasksDuration.simps)

lemma sumDurations_hours:
  "sumDurations \<lparr>hours = 0, minutes = 0\<rparr> \<lparr>hours = 1, minutes = 0\<rparr> = \<lparr>hours = 1, minutes = 0\<rparr>"
  "sumDurations \<lparr>hours = 1, minutes = 0\<rparr> \<lparr>hours = 1, minutes = 0\<rparr> = \<lparr>hours = 2, minutes = 0\<rparr>"
  "sumDurations \<lparr>hours = 0, minutes = 0\<rparr> \<lparr>hours = 2, minutes = 0\<rparr> = \<lparr>hours = 2, minutes = 0\<rparr>"
  by (simp_all add: sumDurations_def Let_def jsRem_def)

text \<open>
  Claim C1 does not hold of the code: after the aggregation a task can be left without a
  duration. \<open>setTasksDuration\<close> calls itself on the children of a task only in the branch
  for a task without a duration, so the tasks below a task with a parsed range are never
  visited. In the scenario of the specification, C lies below A, A has a range, and C
  keeps an undefined duration where the claim gives \<open>{0, 0}\<close>. In the outline
  \<open>workRanged\<close> the line \<open>Project X\<close> lies below a line with a range: it ends without a
  duration and without a label, although the two lines below it have ranges of one hour
  each. In \<open>workPlain\<close>, the same outline with no range on its top line, the other
  branch of the loop reaches \<open>Project X\<close> and gives it the sum of its children, two hours,
  and its label.
\<close>

theorem setTasksDuration_skips_below_range:
  "(\<exists>st. iterate scenario rootTask = Some (Inr st)
      \<and> map duration (preorder (snd (setTasksDuration (forestOf st)))) =
          [Some \<lparr>hours = 1, minutes = 0\<rparr>, Some \<lparr>hours = 0, minutes = 30\<rparr>, None])
   \<and> (\<exists>st rs. iterate workRanged rootTask = Some (Inr st)
      \<and> map duration (preorder (snd (setTasksDuration (forestOf st)))) =
          [Some \<lparr>hours = 3, minutes = 0\<rparr>, None,
           Some \<lparr>hours = 1, minutes = 0\<rparr>, Some \<lparr>hours = 1, minutes = 0\<rparr>]
      \<and> buildDecorations workRanged = Some (Inr rs)
      \<and> map fst (widgetLabels rs) = [16, 40, 54])
   \<and> (\<exists>st rs. iterate workPlain rootTask = Some (Inr st)
      \<and> map duration (preorder (snd (setTasksDuration (forestOf st)))) =
          [Some \<lparr>hours = 2, minutes = 0\<rparr>, Some \<lparr>hours = 2, minutes = 0\<rparr>,
           Some \<lparr>hours = 1, minutes = 0\<rparr>, Some \<lparr>hours = 1, minutes = 0\<rparr>]
      \<and> buildDecorations workPlain = Some (Inr rs)
      \<and> map fst (widgetLabels rs) = [4, 14, 28, 42])"
proof (intro conjI)
  from scenario_forest obtain st where
    b: "iterate scenario rootTask = Some (Inr st)" and f: "forestOf st = 
     [TimedTask 1 13 (markPosOf 0 (ascii ''09:00-10:00 A'')) (Some RootTask)
        (Some \<lparr>hours = 1, minutes = 0\<rparr>)
        [TimedTask 2 27 (markPosOf 14 (ascii ''09:00-09:30 B'')) (Some (Task 0))
           (Some \<lparr>hours = 0, minutes = 30\<rparr>) [],
         TimedTask 2 41 (markPosOf 28 (ascii ''child no time'')) (Some (Task 0)) None []]]"
    by blast
  have "map duration (preorder (snd (setTasksDuration (forestOf st)))) =
         [Some \<lparr>hours = 1, minutes = 0\<rparr>, Some \<lparr>hours = 0, minutes = 30\<rparr>, None]"
    by (simp add: f preorder_def)
  with b show "\<exists>st. iterate scenario rootTask = Some (Inr st)
      \<and> map duration (preorder (snd (setTasksDuration (forestOf st)))) =
          [Some \<lparr>hours = 1, minutes = 0\<rparr>, Some \<lparr>hours = 0, minutes = 30\<rparr>, None]"
    by (intro exI [of _ st]) simp
next
  from workRanged_forest obtain st where
    b: "iterate workRanged rootTask = Some (Inr st)" and f: "forestOf st =
     [TimedTask 1 16 (markPosOf 0 (ascii ''09:00-12:00 Work'')) (Some RootTask)
        (Some \<lparr>hours = 3, minutes = 0\<rparr>)
        [TimedTask 2 26 (markPosOf 17 (ascii ''Project X'')) (Some (Task 0)) None
           [TimedTask 3 40 (markPosOf 27 (ascii ''09:00-10:00 a'')) (Some (Task 1))
              (Some \<lparr>hours = 1, minutes = 0\<rparr>) [],
            TimedTask 3 54 (markPosOf 41 (ascii ''10:00-11:00 b'')) (Some (Task 1))
              (Some \<lparr>hours = 1, minutes = 0\<rparr>) []]]]"
    by blast
  from widgetLabels_buildDecorations [OF b] obtain rs where
    d: "buildDecorations workRanged = Some (Inr rs)"
    and w: "widgetLabels rs = concat (map taskLabel (preorder (snd (setTasksDuration (forestOf st)))))"
    by blast
  have s: "snd (setTasksDuration (forestOf st)) = forestOf st"
    by (simp add: f)
  have "map duration (preorder (snd (setTasksDuration (forestOf st)))) =
          [Some \<lparr>hours = 3, minutes = 0\<rparr>, None,
           Some \<lparr>hours = 1, minutes = 0\<rparr>, Some \<lparr>hours = 1, minutes = 0\<rparr>]"
    unfolding s by (simp add: f preorder_def)
  moreover have "map fst (widgetLabels rs) = [16, 40, 54]"
    unfolding w s by (simp add: f preorder_def taskLabel_def)
  ultimately show "\<exists>st rs. iterate workRanged rootTask = Some (Inr st)
      \<and> map duration (preorder (snd (setTasksDuration (forestOf st)))) =
          [Some \<lparr>hours = 3, minutes = 0\<rparr>, None,
           Some \<lparr>hours = 1, minutes = 0\<rparr>, Some \<lparr>hours = 1, minutes = 0\<rparr>]
      \<and> buildDecorations workRanged = Some (Inr rs)
      \<and> map fst (widgetLabels rs) = [16, 40, 54]"
    using b d by (intro exI [of _ st] exI [of _ rs]) simp
next
  from workPlain_forest obtain st where
    b: "iterate workPlain rootTask = Some (Inr st)" and f: "forestOf st =
     [TimedTask 1 4 (markPosOf 0 (ascii ''Work'')) (Some RootTask) None
        [TimedTask 2 14 (markPosOf 5 (ascii ''Project X'')) (Some (Task 0)) None
           [TimedTask 3 28 (markPosOf 15 (ascii ''09:00-10:00 a'')) (Some (Task 1))
              (Some \<lparr>hours = 1, minutes = 0\<rparr>) [],
            TimedTask 3 42 (markPosOf 29 (ascii ''10:00-11:00 b'')) (Some (Task 1))
              (Some \<lparr>hours = 1, minutes = 0\<rparr>) []]]]"
    by blast
  from widgetLabels_buildDecorations [OF b] obtain rs where
    d: "buildDecorations workPlain = Some (Inr rs)"
    and w: "widgetLabels rs = concat (map taskLabel (preorder (snd (setTasksDuration (forestOf st)))))"
    by blast
  have s: "snd (setTasksDuration (forestOf st)) =
     [TimedTask 1 4 (markPosOf 0 (ascii ''Work'')) (Some RootTask)
        (Some \<lparr>hours = 2, minutes = 0\<rparr>)
        [TimedTask 2 14 (markPosOf 5 (ascii ''Project X'')) (Some (Task 0))
           (Some \<lparr>hours = 2, minutes = 0\<rparr>)
           [TimedTask 3 28 (markPosOf 15 (ascii ''09:00-10:00 a'')) (Some (Task 1))
              (Some \<lparr>hours = 1, minutes = 0\<rparr>) [],
            TimedTask 3 42 (markPosOf 29 (ascii ''10:00-11:00 b'')) (Some (Task 1))
              (Some \<lparr>hours = 1, minutes = 0\<rparr>) []]]]"
    by (simp add: f sumDurations_hours)
  have "map duration (preorder (snd (setTasksDuration (forestOf st)))) =
          [Some \<lparr>hours = 2, minutes = 0\<rparr>, Some \<lparr>hours = 2, minutes = 0\<rparr>,
           Some \<lparr>hours = 1, minutes = 0\<rparr>, Some \<lparr>hours = 1, minutes = 0\<rparr>]"
    unfolding s by (simp add: preorder_def)
  moreover have "map fst (widgetLabels rs) = [4, 14, 28, 42]"
    unfolding w s by (simp add: preorder_def taskLabel_def)
  ultimately show "\<exists>st rs. iterate workPlain rootTask = Some (Inr st)
      \<and> map duration (preorder (snd (setTasksDuration (forestOf st)))) =
          [Some \<lparr>hours = 2, minutes = 0\<rparr>, Some \<lparr>hours = 2, minutes = 0\<rparr>,
           Some \<lparr>hours = 1, minutes = 0\<rparr>, Some \<lparr>hours = 1, minutes = 0\<rparr>]
      \<and> buildDecorations workPlain = Some (Inr rs)
      \<and> map fst (widgetLabels rs) = [4, 14, 28, 42]"
    using b d by (intro exI [of _ st] exI [of _ rs]) simp
qed

end
